theory Spec2Isabelle
  imports Complex_Main
begin

section \<open>Data model\<close>

text \<open>
  The module \<^verbatim>\<open>comotion/dash.py\<close> sends tabular data to the Dash ingestion API. Its
  four functions are embedded below, together with the parts of pandas, csv, gzip,
  requests, logging and os.path that they call.

  A cell is an integer or a string: the two kinds of value that the CSV writer treats
  differently under \<^verbatim>\<open>csv.QUOTE_NONNUMERIC\<close>. Floats, missing values and dates are
  outside the model. A string is the sequence of its bytes in UTF-8. A \<^verbatim>\<open>DataFrame\<close> is its column labels and its rows, in order; the
  index is not represented, because every frame is written with \<^verbatim>\<open>index=False\<close>.
\<close>

datatype cell = IntCell int | StrCell string

record dataframe =
  columns :: "string list"
  rows :: "cell list list"

text \<open>
  The exceptions that can leave the module: \<^verbatim>\<open>requests.HTTPError\<close> with the status of
  the response, a transport failure of \<^verbatim>\<open>requests.request\<close>, \<^verbatim>\<open>ValueError\<close>,
  \<^verbatim>\<open>OverflowError\<close> and \<^verbatim>\<open>KeyError\<close> from the casts and from \<^verbatim>\<open>range\<close>,
  \<^verbatim>\<open>OSError\<close> from opening a file, and whatever the caller's callback raises.
\<close>

datatype error =
    HTTPError nat
  | ConnectionError
  | ValueError
  | OverflowError
  | KeyError
  | OSError
  | CallbackError

section \<open>Python built-ins used by the module\<close>

subsection \<open>\<^verbatim>\<open>str\<close> of an integer\<close>

definition digit_char :: "nat \<Rightarrow> char" where
  "digit_char d = ''0123456789'' ! d"

fun str_nat :: "nat \<Rightarrow> string" where
  "str_nat n = (if n < 10 then [digit_char n] else str_nat (n div 10) @ [digit_char (n mod 10)])"

declare str_nat.simps [simp del]

definition str_int :: "int \<Rightarrow> string" where
  "str_int i = (if i < 0 then CHR ''-'' # str_nat (nat (- i)) else str_nat (nat i))"

subsection \<open>\<^verbatim>\<open>int\<close> of a string\<close>

text \<open>
  \<^verbatim>\<open>int(s)\<close> is CPython's \<^verbatim>\<open>PyLong_FromUnicodeObject\<close> in base 10. It first rewrites
  the string to ASCII (below) and then reads the result with \<^verbatim>\<open>PyLong_FromString\<close>:
  white space (the six ASCII characters of \<^verbatim>\<open>Py_ISSPACE\<close>), an optional sign, decimal
  digits where single underscores may stand between digits, white space again, and
  the end of the string. Anything else raises \<^verbatim>\<open>ValueError\<close>.

  The interpreter's limit on the number of digits of a conversion between \<^verbatim>\<open>int\<close> and
  \<^verbatim>\<open>str\<close> (\<^verbatim>\<open>sys.set_int_max_str_digits\<close>, 4300 digits unless it is configured) is not
  part of the model: \<^verbatim>\<open>str\<close> and \<^verbatim>\<open>int\<close> are those of an interpreter that runs with the
  limit switched off.
\<close>

definition is_space :: "char \<Rightarrow> bool" where
  "is_space c = (c \<in> set [CHR '' '', CHR 0x09, CHR 0x0A, CHR 0x0B, CHR 0x0C, CHR 0x0D])"

definition strip :: "string \<Rightarrow> string" where
  "strip s = rev (dropWhile is_space (rev (dropWhile is_space s)))"

definition digit_value :: "char \<Rightarrow> nat option" where
  "digit_value c = map_of (zip ''0123456789'' [0, 1, 2, 3, 4, 5, 6, 7, 8, 9]) c"

fun parse_digits :: "bool \<Rightarrow> nat \<Rightarrow> string \<Rightarrow> nat option" where
  "parse_digits after_digit acc [] = (if after_digit then Some acc else None)"
| "parse_digits after_digit acc (c # cs) =
     (case digit_value c of
        Some d \<Rightarrow> parse_digits True (10 * acc + d) cs
      | None \<Rightarrow>
          if c = CHR ''_'' \<and> after_digit then parse_digits False acc cs else None)"

definition long_from_string :: "string \<Rightarrow> error + int" where
  "long_from_string s =
     (case strip s of
        [] \<Rightarrow> Inl ValueError
      | c # cs \<Rightarrow>
          if c = CHR ''-'' then
            (case parse_digits False 0 cs of None \<Rightarrow> Inl ValueError | Some n \<Rightarrow> Inr (- int n))
          else if c = CHR ''+'' then
            (case parse_digits False 0 cs of None \<Rightarrow> Inl ValueError | Some n \<Rightarrow> Inr (int n))
          else
            (case parse_digits False 0 (c # cs) of None \<Rightarrow> Inl ValueError | Some n \<Rightarrow> Inr (int n)))"

text \<open>
  A string of the model is the UTF-8 encoding of a Python string, so its code points
  are read back first. Bytes that are no UTF-8 text (a truncated or overlong sequence,
  a surrogate, a value above \<^verbatim>\<open>0x10FFFF\<close>) stand for no Python string; \<^verbatim>\<open>py_int\<close> below
  answers \<^verbatim>\<open>ValueError\<close> for them.
\<close>

definition continuation :: "nat \<Rightarrow> bool" where
  "continuation b = (128 \<le> b \<and> b < 192)"

fun utf8_decode :: "nat list \<Rightarrow> nat list option" where
  "utf8_decode [] = Some []"
| "utf8_decode (b # bs) =
     (if b < 128 then map_option (Cons b) (utf8_decode bs)
      else if 194 \<le> b \<and> b < 224 then
        (case bs of
           c1 # rest \<Rightarrow>
             if continuation c1
             then map_option (Cons ((b - 192) * 64 + (c1 - 128))) (utf8_decode rest)
             else None
         | _ \<Rightarrow> None)
      else if 224 \<le> b \<and> b < 240 then
        (case bs of
           c1 # c2 # rest \<Rightarrow>
             (let ch = (b - 224) * 4096 + (c1 - 128) * 64 + (c2 - 128) in
              if continuation c1 \<and> continuation c2 \<and> 2048 \<le> ch \<and>
                 \<not> (55296 \<le> ch \<and> ch < 57344)
              then map_option (Cons ch) (utf8_decode rest)
              else None)
         | _ \<Rightarrow> None)
      else if 240 \<le> b \<and> b < 245 then
        (case bs of
           c1 # c2 # c3 # rest \<Rightarrow>
             (let ch = (b - 240) * 262144 + (c1 - 128) * 4096 + (c2 - 128) * 64 + (c3 - 128) in
              if continuation c1 \<and> continuation c2 \<and> continuation c3 \<and>
                 65536 \<le> ch \<and> ch < 1114112
              then map_option (Cons ch) (utf8_decode rest)
              else None)
         | _ \<Rightarrow> None)
      else None)"

text \<open>
  The decimal digits of Unicode come in runs of ten, from the digit zero of a script to
  its digit nine; the list holds the code point of every digit zero (Unicode 14.0, the
  database of CPython 3.11; later versions add the digits of further scripts).
  \<^verbatim>\<open>Py_UNICODE_TODECIMAL\<close> gives the value of a digit, \<^verbatim>\<open>Py_UNICODE_ISSPACE\<close> says
  whether a code point is white space.
\<close>

definition decimal_zeros :: "nat list" where
  "decimal_zeros =
     [0x30, 0x660, 0x6F0, 0x7C0, 0x966, 0x9E6, 0xA66, 0xAE6, 0xB66, 0xBE6, 0xC66, 0xCE6,
      0xD66, 0xDE6, 0xE50, 0xED0, 0xF20, 0x1040, 0x1090, 0x17E0, 0x1810, 0x1946, 0x19D0,
      0x1A80, 0x1A90, 0x1B50, 0x1BB0, 0x1C40, 0x1C50, 0xA620, 0xA8D0, 0xA900, 0xA9D0,
      0xA9F0, 0xAA50, 0xABF0, 0xFF10, 0x104A0, 0x10D30, 0x11066, 0x110F0, 0x11136,
      0x111D0, 0x112F0, 0x11450, 0x114D0, 0x11650, 0x116C0, 0x11730, 0x118E0, 0x11950,
      0x11C50, 0x11D50, 0x11DA0, 0x16A60, 0x16AC0, 0x16B50, 0x1D7CE, 0x1D7D8, 0x1D7E2,
      0x1D7EC, 0x1D7F6, 0x1E140, 0x1E2F0, 0x1E950, 0x1FBF0]"

definition unicode_decimal :: "nat \<Rightarrow> nat option" where
  "unicode_decimal ch =
     map_option (\<lambda>zero. ch - zero) (find (\<lambda>zero. zero \<le> ch \<and> ch < zero + 10) decimal_zeros)"

definition unicode_space :: "nat \<Rightarrow> bool" where
  "unicode_space ch =
     (ch \<in> set [0x9, 0xA, 0xB, 0xC, 0xD, 0x1C, 0x1D, 0x1E, 0x1F, 0x20, 0x85, 0xA0, 0x1680,
                0x2000, 0x2001, 0x2002, 0x2003, 0x2004, 0x2005, 0x2006, 0x2007, 0x2008,
                0x2009, 0x200A, 0x2028, 0x2029, 0x202F, 0x205F, 0x3000])"

text \<open>
  \<^verbatim>\<open>_PyUnicode_TransformDecimalAndSpaceToASCII\<close>: a code point below 127 is kept, white
  space becomes a blank, a decimal digit becomes the ASCII digit of its value, and
  the first code point that is none of these becomes a question mark, where the result
  ends.
\<close>

fun transform_decimal_and_space :: "nat list \<Rightarrow> string" where
  "transform_decimal_and_space [] = []"
| "transform_decimal_and_space (ch # rest) =
     (if ch < 127 then char_of ch # transform_decimal_and_space rest
      else if unicode_space ch then CHR '' '' # transform_decimal_and_space rest
      else
        (case unicode_decimal ch of
           None \<Rightarrow> ''?''
         | Some d \<Rightarrow> digit_char d # transform_decimal_and_space rest))"

text \<open>A string that is ASCII throughout is read as it is.\<close>

definition py_int :: "string \<Rightarrow> error + int" where
  "py_int s =
     (if list_all (\<lambda>c. of_char c < (128 :: nat)) s then long_from_string s
      else
        (case utf8_decode (map of_char s) of
           None \<Rightarrow> Inl ValueError
         | Some chs \<Rightarrow> long_from_string (transform_decimal_and_space chs)))"

subsection \<open>\<^verbatim>\<open>range\<close> and slices\<close>

text \<open>
  \<^verbatim>\<open>range(start, stop, step)\<close> raises \<^verbatim>\<open>ValueError\<close> for a zero step, counts up for a
  positive step and down for a negative one.
\<close>

function range_from :: "int \<Rightarrow> int \<Rightarrow> int \<Rightarrow> int list" where
  "range_from i stop step =
     (if (0 < step \<and> i < stop) \<or> (step < 0 \<and> stop < i)
      then i # range_from (i + step) stop step else [])"
  by pat_completeness auto
termination
  by (relation "measure (\<lambda>(i, stop, step). if 0 < step then nat (stop - i) else nat (i - stop))")
    auto

declare range_from.simps [simp del]

definition py_range :: "int \<Rightarrow> int \<Rightarrow> int \<Rightarrow> error + int list" where
  "py_range start stop step =
     (if step = 0 then Inl ValueError else Inr (range_from start stop step))"

text \<open>
  A slice \<^verbatim>\<open>xs[a:b]\<close>: a negative bound counts from the end, and both bounds are
  clamped to the length.
\<close>

definition slice_bound :: "int \<Rightarrow> int \<Rightarrow> int" where
  "slice_bound n i = (if i < 0 then max 0 (i + n) else min i n)"

definition py_slice :: "'a list \<Rightarrow> int \<Rightarrow> int \<Rightarrow> 'a list" where
  "py_slice xs a b =
     (let n = int (length xs); lo = slice_bound n a; hi = slice_bound n b
      in take (nat (hi - lo)) (drop (nat lo) xs))"

section \<open>pandas: chunking\<close>

text \<open>\<^verbatim>\<open>dataframe[a:b]\<close> slices the rows by position and keeps the columns.\<close>

definition row_slice :: "dataframe \<Rightarrow> int \<Rightarrow> int \<Rightarrow> dataframe" where
  "row_slice df a b = df\<lparr>rows := py_slice (rows df) a b\<rparr>"

text \<open>
  Line 263 of \<^verbatim>\<open>upload_dataframe\<close>:
  \<^verbatim>\<open>[dataframe[i:i+chunksize] for i in range(0, dataframe.shape[0], chunksize)]\<close>.
\<close>

definition data_chunks :: "int \<Rightarrow> dataframe \<Rightarrow> error + dataframe list" where
  "data_chunks chunksize df =
     (case py_range 0 (int (length (rows df))) chunksize of
        Inl e \<Rightarrow> Inl e
      | Inr starts \<Rightarrow> Inr (map (\<lambda>i. row_slice df i (i + chunksize)) starts))"

text \<open>
  \<^verbatim>\<open>pd.read_csv(file, chunksize=chunksize)\<close> returns a reader; iterating it calls
  \<^verbatim>\<open>read(nrows=chunksize)\<close> until the parser raises \<^verbatim>\<open>StopIteration\<close>. The source file
  is represented by the table it parses to (parse errors are outside the model). A
  chunk size below one is refused with \<^verbatim>\<open>ValueError\<close>. The reader sets the first
  \<^verbatim>\<open>StopIteration\<close> aside when it comes on the very first read: a file that holds a
  header and no data row yields one frame with the columns and no rows (pandas'
  \<^verbatim>\<open>_first_chunk\<close>; its test \<^verbatim>\<open>test_empty_with_nrows_chunksize\<close>).
\<close>

function read_rows :: "nat \<Rightarrow> cell list list \<Rightarrow> cell list list list" where
  "read_rows nrows rs =
     (if nrows = 0 \<or> rs = [] then [] else take nrows rs # read_rows nrows (drop nrows rs))"
  by pat_completeness auto
termination
  by (relation "measure (\<lambda>(nrows, rs). length rs)") auto

declare read_rows.simps [simp del]

definition read_csv_chunks :: "int \<Rightarrow> dataframe \<Rightarrow> error + dataframe list" where
  "read_csv_chunks chunksize file =
     (if chunksize < 1 then Inl ValueError
      else if rows file = [] then Inr [file]
      else Inr (map (\<lambda>rs. file\<lparr>rows := rs\<rparr>) (read_rows (nat chunksize) (rows file))))"

section \<open>pandas: column assignment and casts\<close>

text \<open>
  \<^verbatim>\<open>dataframe[name] = value\<close> with a scalar: every column labelled \<^verbatim>\<open>name\<close> is filled
  with the value; if there is none, a new column is appended as the last one.
\<close>

definition setitem :: "string \<Rightarrow> cell \<Rightarrow> dataframe \<Rightarrow> dataframe" where
  "setitem name v df =
     (if name \<in> set (columns df)
      then df\<lparr>rows := map (\<lambda>row. map2 (\<lambda>c x. if c = name then v else x) (columns df) row) (rows df)\<rparr>
      else df\<lparr>columns := columns df @ [name], rows := map (\<lambda>row. row @ [v]) (rows df)\<rparr>)"

text \<open>
  The frame of the model holds the values of a column and not the type pandas stores
  them under. The type is taken to be the one pandas infers when a frame is built from
  Python values (\<^verbatim>\<open>maybe_convert_objects\<close>): \<^verbatim>\<open>int64\<close> for integers that all fit 64 bits
  with a sign, \<^verbatim>\<open>uint64\<close> for integers that are all between 0 and \<open>2\<^sup>6\<^sup>4 - 1\<close> when one
  of them is \<open>2\<^sup>6\<^sup>3\<close> or more, and \<^verbatim>\<open>object\<close> for everything else: a column with a
  string (pandas keeps strings as Python objects), or with a large and a negative
  integer, or with an integer outside both ranges.
\<close>

datatype storage = Int64 | UInt64 | Object

definition infer_storage :: "cell list \<Rightarrow> storage" where
  "infer_storage cells =
     (if list_all (\<lambda>c. case c of IntCell i \<Rightarrow> - (2 ^ 63) \<le> i \<and> i < 2 ^ 63 | StrCell s \<Rightarrow> False)
           cells
      then Int64
      else if list_all (\<lambda>c. case c of IntCell i \<Rightarrow> 0 \<le> i \<and> i < 2 ^ 64 | StrCell s \<Rightarrow> False)
           cells
      then UInt64
      else Object)"

text \<open>
  The target types of a cast: \<^verbatim>\<open>"int"\<close> (64 bits with a sign) and \<^verbatim>\<open>"str"\<close>. What the
  cast to \<^verbatim>\<open>"int"\<close> does depends on the stored type. An \<^verbatim>\<open>int64\<close> column is copied. A
  \<^verbatim>\<open>uint64\<close> column is converted by NumPy without a check, so a value from \<open>2\<^sup>6\<^sup>3\<close> on
  wraps around to a negative one. In an \<^verbatim>\<open>object\<close> column every element goes through
  \<^verbatim>\<open>int\<close>, and a result outside the 64-bit range raises \<^verbatim>\<open>OverflowError\<close>. The cast
  to \<^verbatim>\<open>"str"\<close> applies \<^verbatim>\<open>str\<close> to every element.
\<close>

datatype dtype = DInt | DStr

definition int64 :: "int \<Rightarrow> error + int" where
  "int64 i = (if - (2 ^ 63) \<le> i \<and> i < 2 ^ 63 then Inr i else Inl OverflowError)"

definition wrap64 :: "int \<Rightarrow> int" where
  "wrap64 i = (i + 2 ^ 63) mod 2 ^ 64 - 2 ^ 63"

fun cast_cell :: "storage \<Rightarrow> dtype \<Rightarrow> cell \<Rightarrow> error + cell" where
  "cast_cell Int64 DInt (IntCell i) = Inr (IntCell i)"
| "cast_cell UInt64 DInt (IntCell i) = Inr (IntCell (wrap64 i))"
| "cast_cell Object DInt (IntCell i) = map_sum id IntCell (int64 i)"
| "cast_cell st DInt (StrCell s) =
     (case py_int s of Inl e \<Rightarrow> Inl e | Inr i \<Rightarrow> map_sum id IntCell (int64 i))"
| "cast_cell st DStr (IntCell i) = Inr (StrCell (str_int i))"
| "cast_cell st DStr (StrCell s) = Inr (StrCell s)"

text \<open>The first error of a list of results, or all the values.\<close>

fun collect :: "(error + 'a) list \<Rightarrow> error + 'a list" where
  "collect [] = Inr []"
| "collect (x # xs) =
     (case x of
        Inl e \<Rightarrow> Inl e
      | Inr v \<Rightarrow> (case collect xs of Inl e \<Rightarrow> Inl e | Inr vs \<Rightarrow> Inr (v # vs)))"

definition column_values :: "dataframe \<Rightarrow> nat \<Rightarrow> cell list" where
  "column_values df j = map (\<lambda>row. row ! j) (rows df)"

definition cast_column :: "dtype option \<Rightarrow> cell list \<Rightarrow> error + cell list" where
  "cast_column t cells =
     (case t of
        None \<Rightarrow> Inr cells
      | Some ty \<Rightarrow> collect (map (cast_cell (infer_storage cells) ty) cells))"

text \<open>
  \<^verbatim>\<open>dataframe.astype(dtype=dtypes)\<close> with a dictionary: a key that is not a column label
  raises \<^verbatim>\<open>KeyError\<close>; otherwise the columns are cast one after the other, in the
  frame's order, and a new frame is built from the results. The frame it is called on
  is left as it was. A frame is rectangular: every row has one cell per column.
\<close>

definition rectangular :: "dataframe \<Rightarrow> bool" where
  "rectangular df = list_all (\<lambda>row. length row = length (columns df)) (rows df)"

definition astype :: "(string \<times> dtype) list \<Rightarrow> dataframe \<Rightarrow> error + dataframe" where
  "astype dtypes df =
     (if list_ex (\<lambda>k. k \<notin> set (columns df)) (map fst dtypes) then Inl KeyError
      else
        (case collect (map (\<lambda>(j, c). cast_column (map_of dtypes c) (column_values df j))
                        (enumerate 0 (columns df))) of
           Inl e \<Rightarrow> Inl e
         | Inr cols \<Rightarrow>
             Inr (df\<lparr>rows := map (\<lambda>i. map (\<lambda>col. col ! i) cols) [0 ..< length (rows df)]\<rparr>)))"

section \<open>csv and gzip: the serialized payload\<close>

text \<open>
  The \<^verbatim>\<open>csv\<close> writer under \<^verbatim>\<open>QUOTE_NONNUMERIC\<close>: a number is written as \<^verbatim>\<open>str\<close> gives
  it; a string is put between double quotes, with every double quote in it doubled.
  Fields are separated by commas and a record ends with the line separator
  (\<^verbatim>\<open>os.linesep\<close>, a line feed on POSIX).
\<close>

definition quote_field :: "string \<Rightarrow> string" where
  "quote_field s =
     CHR 0x22 # concat (map (\<lambda>c. if c = CHR 0x22 then [c, c] else [c]) s) @ [CHR 0x22]"

fun write_field :: "cell \<Rightarrow> string" where
  "write_field (IntCell i) = str_int i"
| "write_field (StrCell s) = quote_field s"

fun join_fields :: "string list \<Rightarrow> string" where
  "join_fields [] = []"
| "join_fields [f] = f"
| "join_fields (f # g # fs) = f @ CHR '','' # join_fields (g # fs)"

definition writerow :: "cell list \<Rightarrow> string" where
  "writerow cells = join_fields (map write_field cells) @ [CHR 0x0A]"

text \<open>
  \<^verbatim>\<open>df.to_csv(..., index=False, quoting=csv.QUOTE_NONNUMERIC)\<close>: the header record with
  the column labels, then one record per row.
\<close>

definition to_csv :: "dataframe \<Rightarrow> string" where
  "to_csv df = writerow (map StrCell (columns df)) @ concat (map writerow (rows df))"

text \<open>
  A gzip member is represented by what fixes its bytes under given compression
  settings: the uncompressed data and the MTIME field of its header (RFC 1952).
  \<^verbatim>\<open>gzip.GzipFile\<close> stamps MTIME with \<^verbatim>\<open>time.time()\<close> when it is given no \<^verbatim>\<open>mtime\<close>,
  and pandas passes none for \<^verbatim>\<open>compression="gzip"\<close>.
\<close>

record gzip_stream =
  mtime :: nat
  payload :: string

definition gzip_compress :: "nat \<Rightarrow> string \<Rightarrow> gzip_stream" where
  "gzip_compress t s = \<lparr>mtime = t, payload = s\<rparr>"

definition gzip_decompress :: "gzip_stream \<Rightarrow> string" where
  "gzip_decompress g = payload g"

section \<open>The outside world\<close>

text \<open>
  One reading of the system clock: the seconds since the epoch, as \<^verbatim>\<open>time.time()\<close>
  truncates them, and the local calendar fields of \<^verbatim>\<open>datetime.now()\<close>.
\<close>

record instant =
  epoch :: nat
  year :: nat
  month :: nat
  day :: nat
  hour :: nat
  minute :: nat
  second :: nat
  microsecond :: nat

record http_request =
  http_method :: string
  url :: string
  headers :: "(string \<times> string) list"
  data :: gzip_stream

record http_response =
  status_code :: nat
  response_text :: string

text \<open>
  What the module cannot decide is an input: the clock (its \<open>n\<close>-th reading), what
  one call of \<^verbatim>\<open>requests.request\<close> comes back with for a request, given the requests
  sent before it (the final response, after any redirect that the library follows, or
  a transport error), and whether a path can be opened for writing.
\<close>

record environment =
  clock :: "nat \<Rightarrow> instant"
  server :: "http_request list \<Rightarrow> http_request \<Rightarrow> error + http_response"
  can_open :: "string \<Rightarrow> bool"

text \<open>
  What the module changes: the number of clock readings made, the requests sent, the
  files written with \<^verbatim>\<open>open(path, "wb")\<close>, the file handlers attached to the module's
  logger (by the name of their log file), the records written to log files, and the
  \<^verbatim>\<open>DataFrame\<close> objects, by address.
\<close>

record world =
  ticks :: nat
  requests :: "http_request list"
  files :: "(string \<times> gzip_stream) list"
  handlers :: "string list"
  log_records :: "(string \<times> string) list"
  heap :: "dataframe list"

definition read_clock :: "environment \<Rightarrow> world \<Rightarrow> instant \<times> world" where
  "read_clock env w = (clock env (ticks w), w\<lparr>ticks := Suc (ticks w)\<rparr>)"

definition zero_pad :: "nat \<Rightarrow> string \<Rightarrow> string" where
  "zero_pad width s = replicate (width - length s) CHR ''0'' @ s"

text \<open>\<^verbatim>\<open>strftime("%Y-%m-%d %H:%M:%S.%f")\<close> and \<^verbatim>\<open>strftime("%Y%m%d%H%M")\<close>.\<close>

definition strftime_snapshot :: "instant \<Rightarrow> string" where
  "strftime_snapshot t =
     zero_pad 4 (str_nat (year t)) @ ''-'' @ zero_pad 2 (str_nat (month t)) @ ''-'' @
     zero_pad 2 (str_nat (day t)) @ '' '' @ zero_pad 2 (str_nat (hour t)) @ '':'' @
     zero_pad 2 (str_nat (minute t)) @ '':'' @ zero_pad 2 (str_nat (second t)) @ ''.'' @
     zero_pad 6 (str_nat (microsecond t))"

definition strftime_log :: "instant \<Rightarrow> string" where
  "strftime_log t =
     zero_pad 4 (str_nat (year t)) @ zero_pad 2 (str_nat (month t)) @
     zero_pad 2 (str_nat (day t)) @ zero_pad 2 (str_nat (hour t)) @
     zero_pad 2 (str_nat (minute t))"

text \<open>\<^verbatim>\<open>os.path.join\<close> of two components (POSIX).\<close>

definition join :: "string \<Rightarrow> string \<Rightarrow> string" where
  "join a b =
     (if b \<noteq> [] \<and> hd b = CHR ''/'' then b
      else if a = [] \<or> last a = CHR ''/'' then a @ b
      else a @ ''/'' @ b)"

text \<open>\<^verbatim>\<open>with open(path, "wb") as f: f.write(stream.getvalue())\<close>.\<close>

definition write_file :: "environment \<Rightarrow> string \<Rightarrow> gzip_stream \<Rightarrow> world \<Rightarrow> (error + unit) \<times> world" where
  "write_file env path stream w =
     (if can_open env path then (Inr (), w\<lparr>files := files w @ [(path, stream)]\<rparr>)
      else (Inl OSError, w))"

text \<open>
  \<^verbatim>\<open>logging.FileHandler(log_file)\<close> opens the file for appending; \<^verbatim>\<open>logger.addHandler\<close>
  attaches the handler to the module's logger, which outlives the call.
  \<^verbatim>\<open>logger.info(message)\<close> writes one record through every attached handler. A
  record is given by its log file and its message; the time, the logger's name and the
  level that the formatter puts before the message are left out.
\<close>

definition add_file_handler :: "environment \<Rightarrow> string \<Rightarrow> world \<Rightarrow> (error + unit) \<times> world" where
  "add_file_handler env log_file w =
     (if can_open env log_file then (Inr (), w\<lparr>handlers := handlers w @ [log_file]\<rparr>)
      else (Inl OSError, w))"

definition logger_info :: "string \<Rightarrow> world \<Rightarrow> world" where
  "logger_info message w =
     w\<lparr>log_records := log_records w @ map (\<lambda>h. (h, message)) (handlers w)\<rparr>"

text \<open>
  \<^verbatim>\<open>Response.raise_for_status()\<close> of requests raises \<^verbatim>\<open>HTTPError\<close> for a status from
  400 to 599 and returns for every other status.
\<close>

definition raise_for_status :: "http_response \<Rightarrow> error + unit" where
  "raise_for_status r =
     (if 400 \<le> status_code r \<and> status_code r < 600 then Inl (HTTPError (status_code r))
      else Inr ())"

section \<open>The module\<close>

subsection \<open>\<^verbatim>\<open>upload_csv_to_dash\<close>\<close>

text \<open>
  One call of \<^verbatim>\<open>requests.request("POST", url, headers=headers, data=...)\<close>, then
  \<^verbatim>\<open>raise_for_status\<close>. The request is recorded as sent whatever comes back.
\<close>

definition upload_csv_to_dash ::
  "environment \<Rightarrow> string \<Rightarrow> string \<Rightarrow> string \<Rightarrow> gzip_stream \<Rightarrow> world
   \<Rightarrow> (error + http_response) \<times> world" where
  "upload_csv_to_dash env dash_orgname dash_api_key dash_table csv_gz_stream w =
     (let request =
            \<lparr>http_method = ''POST'',
             url = ''https://api.comodash.io/v1/data-input-file'',
             headers =
               [(''Content-Type'', ''application/gzip''),
                (''service_client_id'', ''0''),
                (''x-api-key'', dash_api_key),
                (''org-name'', dash_orgname),
                (''table-name'', dash_table)],
             data = csv_gz_stream\<rparr>;
          w' = w\<lparr>requests := requests w @ [request]\<rparr>
      in case server env (requests w) request of
           Inl e \<Rightarrow> (Inl e, w')
         | Inr dash_response \<Rightarrow>
             (case raise_for_status dash_response of
                Inl e \<Rightarrow> (Inl e, w')
              | Inr _ \<Rightarrow> (Inr dash_response, w')))"

subsection \<open>\<^verbatim>\<open>create_gzipped_csv_stream_from_df\<close>\<close>

text \<open>
  \<^verbatim>\<open>df.to_csv(csv_stream, compression="gzip", encoding="utf-8", index=False,
  quoting=csv.QUOTE_NONNUMERIC)\<close> into a fresh \<^verbatim>\<open>BytesIO\<close>. The gzip header takes one
  reading of the clock.
\<close>

definition create_gzipped_csv_stream_from_df ::
  "environment \<Rightarrow> dataframe \<Rightarrow> world \<Rightarrow> gzip_stream \<times> world" where
  "create_gzipped_csv_stream_from_df env df w =
     (let (now, w') = read_clock env w
      in (gzip_compress (epoch now) (to_csv df), w'))"

subsection \<open>\<^verbatim>\<open>read_and_upload_file_to_dash\<close>\<close>

text \<open>
  \<^verbatim>\<open>if modify_lambda is not None: modify_lambda(file_df)\<close>: the callback changes the
  chunk in place (its return value is dropped) or raises. It is given as the function
  from the chunk to the chunk as the callback leaves it.
\<close>

definition call_modify_lambda ::
  "(dataframe \<Rightarrow> error + dataframe) option \<Rightarrow> dataframe \<Rightarrow> error + dataframe" where
  "call_modify_lambda modify_lambda file_df =
     (case modify_lambda of None \<Rightarrow> Inr file_df | Some f \<Rightarrow> f file_df)"

text \<open>
  The loop of lines 152 to 181 over the chunks that the reader yields, with the
  counter \<^verbatim>\<open>i\<close> and the list \<^verbatim>\<open>responses\<close>. An exception leaves the loop with the
  world as it is at that point; the local list of responses is lost with it.
\<close>

fun upload_file_chunks ::
  "environment \<Rightarrow> string \<Rightarrow> string \<Rightarrow> string \<Rightarrow> (dataframe \<Rightarrow> error + dataframe) option
   \<Rightarrow> string option \<Rightarrow> nat \<Rightarrow> string list \<Rightarrow> dataframe list \<Rightarrow> world
   \<Rightarrow> (error + string list) \<times> world" where
  "upload_file_chunks env dash_table dash_orgname dash_api_key modify_lambda
     path_to_output_for_dryrun i responses [] w = (Inr responses, w)"
| "upload_file_chunks env dash_table dash_orgname dash_api_key modify_lambda
     path_to_output_for_dryrun i responses (file_df # file_reader) w =
     (case call_modify_lambda modify_lambda file_df of
        Inl e \<Rightarrow> (Inl e, w)
      | Inr modified_df \<Rightarrow>
          (let (csv_stream, w1) = create_gzipped_csv_stream_from_df env modified_df w
           in case path_to_output_for_dryrun of
                None \<Rightarrow>
                  (case upload_csv_to_dash env dash_orgname dash_api_key dash_table csv_stream w1 of
                     (Inl e, w2) \<Rightarrow> (Inl e, w2)
                   | (Inr response, w2) \<Rightarrow>
                       upload_file_chunks env dash_table dash_orgname dash_api_key modify_lambda
                         path_to_output_for_dryrun (i + 1) (responses @ [response_text response])
                         file_reader w2)
              | Some directory \<Rightarrow>
                  (case write_file env
                          (join directory (dash_table @ ''.'' @ str_nat i @ ''.csv.gz''))
                          csv_stream w1 of
                     (Inl e, w2) \<Rightarrow> (Inl e, w2)
                   | (Inr _, w2) \<Rightarrow>
                       upload_file_chunks env dash_table dash_orgname dash_api_key modify_lambda
                         path_to_output_for_dryrun (i + 1) responses file_reader w2)))"

text \<open>
  The source file is given as the table it parses to; the \<^verbatim>\<open>encoding\<close> argument only
  matters to the parser and has no counterpart here.
\<close>

definition read_and_upload_file_to_dash ::
  "environment \<Rightarrow> dataframe \<Rightarrow> string \<Rightarrow> string \<Rightarrow> string \<Rightarrow> int
   \<Rightarrow> (dataframe \<Rightarrow> error + dataframe) option \<Rightarrow> string option \<Rightarrow> world
   \<Rightarrow> (error + string list) \<times> world" where
  "read_and_upload_file_to_dash env file dash_table dash_orgname dash_api_key chunksize
     modify_lambda path_to_output_for_dryrun w =
     (case read_csv_chunks chunksize file of
        Inl e \<Rightarrow> (Inl e, w)
      | Inr file_reader \<Rightarrow>
          upload_file_chunks env dash_table dash_orgname dash_api_key modify_lambda
            path_to_output_for_dryrun 1 [] file_reader w)"

subsection \<open>\<^verbatim>\<open>upload_dataframe\<close>\<close>

text \<open>
  The loop of lines 265 to 282 over \<^verbatim>\<open>enumerate(tqdm(data_chunks))\<close> (the progress bar
  only prints). A response is logged, not collected.
\<close>

fun upload_data_chunks ::
  "environment \<Rightarrow> string \<Rightarrow> string \<Rightarrow> string \<Rightarrow> string option \<Rightarrow> nat \<Rightarrow> dataframe list
   \<Rightarrow> world \<Rightarrow> (error + unit) \<times> world" where
  "upload_data_chunks env dash_table dash_orgname dash_api_key path_to_output_for_dryrun
     i [] w = (Inr (), w)"
| "upload_data_chunks env dash_table dash_orgname dash_api_key path_to_output_for_dryrun
     i (chunk # chunks) w =
     (let (csv_stream, w1) = create_gzipped_csv_stream_from_df env chunk w
      in case path_to_output_for_dryrun of
           None \<Rightarrow>
             (case upload_csv_to_dash env dash_orgname dash_api_key dash_table csv_stream w1 of
                (Inl e, w2) \<Rightarrow> (Inl e, w2)
              | (Inr response, w2) \<Rightarrow>
                  upload_data_chunks env dash_table dash_orgname dash_api_key
                    path_to_output_for_dryrun (i + 1) chunks
                    (logger_info (response_text response) w2))
         | Some directory \<Rightarrow>
             (case write_file env
                     (join directory (dash_table @ ''.'' @ str_nat i @ ''.csv.gz''))
                     csv_stream w1 of
                (Inl e, w2) \<Rightarrow> (Inl e, w2)
              | (Inr _, w2) \<Rightarrow>
                  upload_data_chunks env dash_table dash_orgname dash_api_key
                    path_to_output_for_dryrun (i + 1) chunks w2))"

text \<open>
  The caller's frame is passed by reference: \<open>dataframe\<close> is the address of the object.
  \<^verbatim>\<open>dataframe = dataframe.astype(dtype=dtypes)\<close> binds the local name to a new object;
  \<^verbatim>\<open>dataframe['snapshot_timestamp'] = ...\<close> changes the object that the local name is
  bound to. \<^verbatim>\<open>if dtypes:\<close> is false for \<^verbatim>\<open>None\<close> and for an empty dictionary, both
  given as the empty list.
\<close>

definition new_dataframe :: "dataframe \<Rightarrow> world \<Rightarrow> nat \<times> world" where
  "new_dataframe df w = (length (heap w), w\<lparr>heap := heap w @ [df]\<rparr>)"

text \<open>Lines 240 to 261: the clock, the log file, the casts and the snapshot column.\<close>

definition prepare_dataframe ::
  "environment \<Rightarrow> nat \<Rightarrow> string \<Rightarrow> (string \<times> dtype) list \<Rightarrow> bool \<Rightarrow> world
   \<Rightarrow> (error + nat) \<times> world" where
  "prepare_dataframe env dataframe dash_table dtypes include_snapshot w =
     (let (snapshot_timestamp, w1) = read_clock env w;
          log_file = dash_table @ ''_'' @ strftime_log snapshot_timestamp @ ''.log''
      in case add_file_handler env log_file w1 of
           (Inl e, w2) \<Rightarrow> (Inl e, w2)
         | (Inr _, w2) \<Rightarrow>
             (case (if dtypes \<noteq> []
                    then map_sum id (\<lambda>df. new_dataframe df w2) (astype dtypes (heap w2 ! dataframe))
                    else Inr (dataframe, w2)) of
                Inl e \<Rightarrow> (Inl e, w2)
              | Inr (dataframe', w3) \<Rightarrow>
                  (Inr dataframe',
                   if include_snapshot
                   then w3\<lparr>heap := (heap w3)
                          [dataframe' :=
                             setitem ''snapshot_timestamp''
                               (StrCell (strftime_snapshot snapshot_timestamp))
                               (heap w3 ! dataframe')]\<rparr>
                   else w3)))"

text \<open>Lines 263 to 284: the chunks and the loop over them.\<close>

definition upload_dataframe ::
  "environment \<Rightarrow> nat \<Rightarrow> string \<Rightarrow> string \<Rightarrow> string \<Rightarrow> (string \<times> dtype) list \<Rightarrow> int
   \<Rightarrow> string option \<Rightarrow> bool \<Rightarrow> world \<Rightarrow> (error + unit) \<times> world" where
  "upload_dataframe env dataframe dash_table dash_orgname dash_api_key dtypes chunksize
     path_to_output_for_dryrun include_snapshot w =
     (case prepare_dataframe env dataframe dash_table dtypes include_snapshot w of
        (Inl e, w') \<Rightarrow> (Inl e, w')
      | (Inr dataframe', w4) \<Rightarrow>
          (case data_chunks chunksize (heap w4 ! dataframe') of
             Inl e \<Rightarrow> (Inl e, w4)
           | Inr chunks \<Rightarrow>
               upload_data_chunks env dash_table dash_orgname dash_api_key
                 path_to_output_for_dryrun 0 chunks w4))"

section \<open>Notions used in the statements\<close>

text \<open>
  The request that \<^verbatim>\<open>upload_csv_to_dash\<close> builds, the path of a dry-run chunk file, and
  the stream that serializing a frame gives at a given reading of the clock.
\<close>

definition dash_request :: "string \<Rightarrow> string \<Rightarrow> string \<Rightarrow> gzip_stream \<Rightarrow> http_request" where
  "dash_request dash_orgname dash_api_key dash_table csv_gz_stream =
     \<lparr>http_method = ''POST'',
      url = ''https://api.comodash.io/v1/data-input-file'',
      headers =
        [(''Content-Type'', ''application/gzip''),
         (''service_client_id'', ''0''),
         (''x-api-key'', dash_api_key),
         (''org-name'', dash_orgname),
         (''table-name'', dash_table)],
      data = csv_gz_stream\<rparr>"

definition chunk_path :: "string \<Rightarrow> string \<Rightarrow> nat \<Rightarrow> string" where
  "chunk_path directory dash_table i = join directory (dash_table @ ''.'' @ str_nat i @ ''.csv.gz'')"

definition stream_of :: "environment \<Rightarrow> nat \<Rightarrow> dataframe \<Rightarrow> gzip_stream" where
  "stream_of env n df = \<lparr>mtime = epoch (clock env n), payload = to_csv df\<rparr>"

text \<open>
  The name of the log file and the value of the snapshot column of a call of
  \<^verbatim>\<open>upload_dataframe\<close> that starts in a given world: both come from the first reading
  of the clock.
\<close>

definition log_file_of :: "environment \<Rightarrow> string \<Rightarrow> world \<Rightarrow> string" where
  "log_file_of env dash_table w = dash_table @ ''_'' @ strftime_log (clock env (ticks w)) @ ''.log''"

definition snapshot_of :: "environment \<Rightarrow> world \<Rightarrow> cell" where
  "snapshot_of env w = StrCell (strftime_snapshot (clock env (ticks w)))"

subsection \<open>Reading the written text\<close>

text \<open>
  A reader for the written text, used to say what the text holds: the automaton of the
  \<^verbatim>\<open>csv\<close> reader for this dialect (comma, double quote, doubled quotes inside quoted
  fields, line feed). It returns the records as lists of raw fields, each with the
  mark of having been quoted. Under \<^verbatim>\<open>QUOTE_NONNUMERIC\<close> a quoted field is a string and
  an unquoted field must read as a number: here, as the ASCII numeral of an integer.
\<close>

datatype reader_state = StartRecord | StartField | InField | InQuoted | QuoteInQuoted

fun csv_records ::
  "reader_state \<Rightarrow> string \<Rightarrow> (bool \<times> string) list \<Rightarrow> (bool \<times> string) list list \<Rightarrow> string
   \<Rightarrow> (bool \<times> string) list list option" where
  "csv_records st field_acc record_acc table_acc [] =
     (if st = StartRecord then Some table_acc else None)"
| "csv_records StartRecord field_acc record_acc table_acc (c # cs) =
     (if c = CHR 0x0A then csv_records StartRecord [] [] (table_acc @ [[]]) cs
      else if c = CHR 0x22 then csv_records InQuoted [] [] table_acc cs
      else if c = CHR '','' then csv_records StartField [] [(False, [])] table_acc cs
      else csv_records InField [c] [] table_acc cs)"
| "csv_records StartField field_acc record_acc table_acc (c # cs) =
     (if c = CHR 0x22 then csv_records InQuoted [] record_acc table_acc cs
      else if c = CHR '','' then csv_records StartField [] (record_acc @ [(False, [])]) table_acc cs
      else if c = CHR 0x0A
        then csv_records StartRecord [] [] (table_acc @ [record_acc @ [(False, [])]]) cs
      else csv_records InField [c] record_acc table_acc cs)"
| "csv_records InField field_acc record_acc table_acc (c # cs) =
     (if c = CHR '','' then csv_records StartField [] (record_acc @ [(False, field_acc)]) table_acc cs
      else if c = CHR 0x0A
        then csv_records StartRecord [] [] (table_acc @ [record_acc @ [(False, field_acc)]]) cs
      else csv_records InField (field_acc @ [c]) record_acc table_acc cs)"
| "csv_records InQuoted field_acc record_acc table_acc (c # cs) =
     (if c = CHR 0x22 then csv_records QuoteInQuoted field_acc record_acc table_acc cs
      else csv_records InQuoted (field_acc @ [c]) record_acc table_acc cs)"
| "csv_records QuoteInQuoted field_acc record_acc table_acc (c # cs) =
     (if c = CHR 0x22 then csv_records InQuoted (field_acc @ [c]) record_acc table_acc cs
      else if c = CHR '','' then csv_records StartField [] (record_acc @ [(True, field_acc)]) table_acc cs
      else if c = CHR 0x0A
        then csv_records StartRecord [] [] (table_acc @ [record_acc @ [(True, field_acc)]]) cs
      else None)"

fun field_cell :: "bool \<times> string \<Rightarrow> cell option" where
  "field_cell (True, s) = Some (StrCell s)"
| "field_cell (False, s) = (case long_from_string s of Inl e \<Rightarrow> None | Inr i \<Rightarrow> Some (IntCell i))"

fun field_label :: "bool \<times> string \<Rightarrow> string option" where
  "field_label (True, s) = Some s"
| "field_label (False, s) = None"

fun all_some :: "'a option list \<Rightarrow> 'a list option" where
  "all_some [] = Some []"
| "all_some (x # xs) =
     (case x of
        None \<Rightarrow> None
      | Some v \<Rightarrow> (case all_some xs of None \<Rightarrow> None | Some vs \<Rightarrow> Some (v # vs)))"

definition read_csv_text :: "string \<Rightarrow> dataframe option" where
  "read_csv_text text =
     (case csv_records StartRecord [] [] [] text of
        None \<Rightarrow> None
      | Some [] \<Rightarrow> None
      | Some (header # records) \<Rightarrow>
          (case all_some (map field_label header) of
             None \<Rightarrow> None
           | Some labels \<Rightarrow>
               (case all_some (map (\<lambda>r. all_some (map field_cell r)) records) of
                  None \<Rightarrow> None
                | Some rs \<Rightarrow> Some \<lparr>columns = labels, rows = rs\<rparr>)))"

text \<open>The raw field that a cell is written as.\<close>

fun raw_field :: "cell \<Rightarrow> bool \<times> string" where
  "raw_field (IntCell i) = (False, str_int i)"
| "raw_field (StrCell s) = (True, s)"

section \<open>Example inputs\<close>

text \<open>
  A clock that advances by one second per reading, a server that accepts every
  request, a server that answers 304, a world in which nothing has happened yet, and
  some small tables.
\<close>

definition example_clock :: "nat \<Rightarrow> instant" where
  "example_clock n =
     \<lparr>epoch = 1700000000 + n, year = 2023, month = 11, day = 14, hour = 22, minute = 13,
      second = 20 + n, microsecond = 5\<rparr>"

definition accepting_env :: environment where
  "accepting_env =
     \<lparr>clock = example_clock,
      server =
        (\<lambda>sent request.
           Inr \<lparr>status_code = 200, response_text = ''ok '' @ str_nat (length sent)\<rparr>),
      can_open = (\<lambda>path. True)\<rparr>"

definition initial_world :: world where
  "initial_world =
     \<lparr>ticks = 0, requests = [], files = [], handlers = [], log_records = [], heap = []\<rparr>"

definition header_only :: dataframe where
  "header_only = \<lparr>columns = [''a''], rows = []\<rparr>"

definition three_rows :: dataframe where
  "three_rows =
     \<lparr>columns = [''a'', ''b''],
      rows = [[StrCell ''1'', StrCell ''x''], [StrCell ''2'', StrCell ''y''],
              [StrCell ''3'', StrCell ''z'']]\<rparr>"

definition not_modified_env :: environment where
  "not_modified_env =
     \<lparr>clock = example_clock,
      server = (\<lambda>sent request. Inr \<lparr>status_code = 304, response_text = ''''\<rparr>),
      can_open = (\<lambda>path. True)\<rparr>"

definition empty_stream :: gzip_stream where
  "empty_stream = \<lparr>mtime = 0, payload = ''''\<rparr>"

definition one_frame_world :: world where
  "one_frame_world = initial_world\<lparr>heap := [three_rows]\<rparr>"

definition second_fails_env :: environment where
  "second_fails_env =
     \<lparr>clock = example_clock,
      server =
        (\<lambda>sent request.
           if length sent = 1 then Inr \<lparr>status_code = 500, response_text = ''error''\<rparr>
           else Inr \<lparr>status_code = 200, response_text = ''ok''\<rparr>),
      can_open = (\<lambda>path. True)\<rparr>"

definition one_row :: "nat \<Rightarrow> dataframe" where
  "one_row i = three_rows\<lparr>rows := [rows three_rows ! i]\<rparr>"

definition stamped :: dataframe where
  "stamped = \<lparr>columns = [''id'', ''snapshot_timestamp''], rows = [[IntCell 1, StrCell ''old'']]\<rparr>"

definition stamped_world :: world where
  "stamped_world = initial_world\<lparr>heap := [stamped]\<rparr>"

definition two_strings :: dataframe where
  "two_strings =
     \<lparr>columns = [''a'', ''b''],
      rows = [[StrCell ''1'', StrCell ''x''], [StrCell ''2'', StrCell ''y'']]\<rparr>"

definition two_strings_world :: world where
  "two_strings_world = initial_world\<lparr>heap := [two_strings]\<rparr>"

section \<open>Chunking\<close>

subsection \<open>Slices over a range\<close>

lemma py_slice_chunk:
  assumes "0 \<le> i" "0 < c"
  shows "py_slice xs i (i + c) = take (nat c) (drop (nat i) xs)"
proof -
  let ?n = "int (length xs)"
  have lo: "slice_bound ?n i = min i ?n" and hi: "slice_bound ?n (i + c) = min (i + c) ?n"
    using assms by (simp_all add: slice_bound_def)
  show ?thesis
  proof (cases "i + c \<le> ?n")
    case True
    then have "nat (min (i + c) ?n - min i ?n) = nat c" "nat (min i ?n) = nat i"
      using assms by simp_all
    then show ?thesis by (simp add: py_slice_def Let_def lo hi)
  next
    case False
    then have "length (drop (nat (min i ?n)) xs) \<le> nat (min (i + c) ?n - min i ?n)"
      and "length (drop (nat i) xs) \<le> nat c"
      and "drop (nat (min i ?n)) xs = drop (nat i) xs"
      using assms by (auto simp: min_def)
    then show ?thesis by (simp add: py_slice_def Let_def lo hi)
  qed
qed

lemma range_from_concat:
  "0 < c \<Longrightarrow> 0 \<le> i \<Longrightarrow> n = int (length xs) \<Longrightarrow>
   concat (map (\<lambda>j. py_slice xs j (j + c)) (range_from i n c)) = drop (nat i) xs"
proof (induction i n c rule: range_from.induct)
  case (1 i stop step)
  show ?case
  proof (cases "i < stop")
    case True
    have "drop (nat (i + step)) xs = drop (nat step) (drop (nat i) xs)"
      using 1 by (simp add: nat_add_distrib add.commute)
    moreover have "concat (map (\<lambda>j. py_slice xs j (j + step)) (range_from (i + step) stop step))
        = drop (nat (i + step)) xs"
      using 1 True by simp
    ultimately show ?thesis
      using 1 True append_take_drop_id [of "nat step" "drop (nat i) xs"]
      by (subst range_from.simps) (simp add: py_slice_chunk)
  next
    case False
    then show ?thesis using 1 by (subst range_from.simps) simp
  qed
qed

lemma range_from_length:
  "0 < c \<Longrightarrow> length (range_from i n c) = nat ((n - i + c - 1) div c)"
proof (induction i n c rule: range_from.induct)
  case (1 i stop step)
  show ?case
  proof (cases "i < stop")
    case True
    have "(stop - i + step - 1) div step = (stop - (i + step) + step - 1) div step + 1"
      using 1(2) div_add_self2 [of step "stop - i - 1"] by (simp add: algebra_simps)
    moreover have "0 \<le> (stop - (i + step) + step - 1) div step"
      using 1 True by (simp add: pos_imp_zdiv_nonneg_iff)
    ultimately show ?thesis using 1 True
      by (simp add: range_from.simps [of i stop step])
  next
    case False
    then have "stop - i + step - 1 < step" by simp
    then have "(stop - i + step - 1) div step \<le> 0"
      using 1(2) by (cases "0 \<le> stop - i + step - 1") (simp_all add: div_nonpos_pos_le0)
    then show ?thesis using 1 False by (simp add: range_from.simps [of i stop step])
  qed
qed

lemma range_from_lower: "0 < c \<Longrightarrow> j \<in> set (range_from i n c) \<Longrightarrow> i \<le> j"
proof (induction i n c rule: range_from.induct)
  case (1 i stop step)
  from "1.prems" show ?case
    by (subst (asm) range_from.simps) (use 1 in \<open>auto split: if_splits\<close>)
qed

subsection \<open>The number of chunks\<close>

lemma ceiling_div_int:
  assumes "0 < c"
  shows "\<lceil>real n / real_of_int c\<rceil> = (int n + c - 1) div c"
proof -
  have "\<lceil>real n / real_of_int c\<rceil> = - (- int n div c)"
    using ceiling_divide_eq_div [of "int n" c] by simp
  also have "\<dots> = (int n + c - 1) div c"
  proof (cases "int n mod c = 0")
    case True
    have "int n = c * (int n div c)"
      using True by (metis add.right_neutral mult_div_mod_eq)
    then have "int n + c - 1 = c * (int n div c) + (c - 1)"
      by simp
    moreover have "0 \<le> c - 1" "c - 1 < c" using assms by simp_all
    ultimately have "(int n + c - 1) div c = int n div c"
      by (rule int_div_pos_eq)
    then show ?thesis using True assms by (simp add: zdiv_zminus1_eq_if)
  next
    case False
    have "0 \<le> int n mod c" "int n mod c < c" using assms by simp_all
    then have r: "0 \<le> int n mod c - 1" "int n mod c - 1 < c" using False by simp_all
    have "int n + c - 1 = c * (int n div c + 1) + (int n mod c - 1)"
      by (simp add: algebra_simps)
    then have "(int n + c - 1) div c = int n div c + 1"
      using r by (rule int_div_pos_eq)
    then show ?thesis using False assms by (simp add: zdiv_zminus1_eq_if)
  qed
  finally show ?thesis .
qed

subsection \<open>The reader\<close>

lemma read_rows_concat: "0 < c \<Longrightarrow> concat (read_rows c rs) = rs"
proof (induction c rs rule: read_rows.induct)
  case (1 nrows rs)
  then show ?case by (subst read_rows.simps) auto
qed

lemma read_rows_bound: "r \<in> set (read_rows c rs) \<Longrightarrow> length r \<le> c"
proof (induction c rs rule: read_rows.induct)
  case (1 nrows rs)
  from "1.prems" show ?case
    by (subst (asm) read_rows.simps) (use 1 in \<open>auto split: if_splits\<close>)
qed

lemma read_rows_Nil: "read_rows c [] = []"
  by (subst read_rows.simps) simp

lemma read_rows_step:
  "0 < c \<Longrightarrow> rs \<noteq> [] \<Longrightarrow> read_rows c rs = take c rs # read_rows c (drop c rs)"
  by (subst read_rows.simps) simp

lemma read_rows_length: "0 < c \<Longrightarrow> length (read_rows c rs) = (length rs + c - 1) div c"
proof (induction c rs rule: read_rows.induct)
  case (1 nrows rs)
  show ?case
  proof (cases "rs = []")
    case True
    then show ?thesis using 1(2) by (simp add: read_rows_Nil)
  next
    case False
    then have "0 < length rs" by simp
    have IH: "length (read_rows nrows (drop nrows rs)) = (length rs - nrows + nrows - 1) div nrows"
      using "1.IH" 1(2) False by simp
    have step: "length (read_rows nrows rs) = Suc (length (read_rows nrows (drop nrows rs)))"
      using 1(2) False read_rows_step [of nrows rs] by simp
    show ?thesis
    proof (cases "length rs \<le> nrows")
      case True
      have "(length rs + nrows - 1) div nrows = 1"
      proof (rule div_nat_eqI)
        show "nrows * 1 \<le> length rs + nrows - 1" using False by (cases rs) simp_all
        show "length rs + nrows - 1 < nrows * Suc 1" using True 1(2) by simp
      qed
      moreover have "length (read_rows nrows (drop nrows rs)) = 0"
        using True by (simp add: read_rows_Nil)
      ultimately show ?thesis using step by simp
    next
      case gt: False
      have "length rs + nrows - 1 = (length rs - 1) + nrows"
        using gt by simp
      moreover have "((length rs - 1) + nrows) div nrows = Suc ((length rs - 1) div nrows)"
        using 1(2) by simp
      moreover have "length rs - nrows + nrows - 1 = length rs - 1"
        using gt by simp
      ultimately show ?thesis using step IH by (simp only:)
    qed
  qed
qed

lemma data_chunks_positive:
  assumes "0 < chunksize"
  shows "data_chunks chunksize df =
           Inr (map (\<lambda>i. row_slice df i (i + chunksize))
                  (range_from 0 (int (length (rows df))) chunksize))"
  using assms by (simp add: data_chunks_def py_range_def)

lemma ceiling_chunks:
  assumes "0 < c"
  shows "int (nat ((int n - 0 + c - 1) div c)) = \<lceil>real n / real_of_int c\<rceil>"
proof -
  have "0 \<le> (int n + c - 1) div c"
    using assms by (simp add: pos_imp_zdiv_nonneg_iff)
  then show ?thesis using assms by (simp add: ceiling_div_int)
qed

section \<open>The effects of one call\<close>

lemma create_stream_eq:
  "create_gzipped_csv_stream_from_df env df w =
     (\<lparr>mtime = epoch (clock env (ticks w)), payload = to_csv df\<rparr>, w\<lparr>ticks := Suc (ticks w)\<rparr>)"
  by (simp add: create_gzipped_csv_stream_from_df_def read_clock_def gzip_compress_def)

lemma upload_csv_eq:
  "upload_csv_to_dash env org key table stream w =
     ((case server env (requests w) (dash_request org key table stream) of
         Inl e \<Rightarrow> Inl e
       | Inr r \<Rightarrow>
           if 400 \<le> status_code r \<and> status_code r < 600 then Inl (HTTPError (status_code r))
           else Inr r),
      w\<lparr>requests := requests w @ [dash_request org key table stream]\<rparr>)"
  by (simp add: upload_csv_to_dash_def dash_request_def raise_for_status_def Let_def
      split: sum.splits)

lemma upload_csv_world:
  "upload_csv_to_dash env org key table stream w = (res, w') \<Longrightarrow>
   w' = w\<lparr>requests := requests w @ [dash_request org key table stream]\<rparr>"
  by (simp add: upload_csv_eq)

lemma write_file_Inr:
  "write_file env path stream w = (Inr u, w') \<longleftrightarrow>
   can_open env path \<and> w' = w\<lparr>files := files w @ [(path, stream)]\<rparr>"
  by (auto simp: write_file_def)

lemma write_file_Inl:
  "write_file env path stream w = (Inl e, w') \<longleftrightarrow>
   \<not> can_open env path \<and> e = OSError \<and> w' = w"
  by (auto simp: write_file_def)

section \<open>The loops\<close>

subsection \<open>The loop of the file-based entry point\<close>

lemma create_stream_of:
  "create_gzipped_csv_stream_from_df env df w = (stream_of env (ticks w) df, w\<lparr>ticks := Suc (ticks w)\<rparr>)"
  by (simp add: create_stream_eq stream_of_def)

lemma file_loop_live_Cons:
  "upload_file_chunks env t org key ml None i rs (c # chunks) w =
     (case call_modify_lambda ml c of
        Inl e \<Rightarrow> (Inl e, w)
      | Inr m \<Rightarrow>
          (let request = dash_request org key t (stream_of env (ticks w) m);
               w2 = w\<lparr>ticks := Suc (ticks w), requests := requests w @ [request]\<rparr>
           in case server env (requests w) request of
                Inl e \<Rightarrow> (Inl e, w2)
              | Inr r \<Rightarrow>
                  if 400 \<le> status_code r \<and> status_code r < 600
                  then (Inl (HTTPError (status_code r)), w2)
                  else upload_file_chunks env t org key ml None (Suc i) (rs @ [response_text r])
                         chunks w2))"
  by (simp add: create_stream_of upload_csv_eq Let_def split: sum.splits)

lemma file_loop_dry_Cons:
  "upload_file_chunks env t org key ml (Some dir) i rs (c # chunks) w =
     (case call_modify_lambda ml c of
        Inl e \<Rightarrow> (Inl e, w)
      | Inr m \<Rightarrow>
          if can_open env (chunk_path dir t i)
          then upload_file_chunks env t org key ml (Some dir) (Suc i) rs chunks
                 (w\<lparr>ticks := Suc (ticks w),
                    files := files w @ [(chunk_path dir t i, stream_of env (ticks w) m)]\<rparr>)
          else (Inl OSError, w\<lparr>ticks := Suc (ticks w)\<rparr>))"
  by (simp add: create_stream_of write_file_def chunk_path_def split: sum.splits)

declare upload_file_chunks.simps(2) [simp del]

lemma file_loop_append:
  "upload_file_chunks env t org key ml path i rs (xs @ ys) w =
     (case upload_file_chunks env t org key ml path i rs xs w of
        (Inl e, w') \<Rightarrow> (Inl e, w')
      | (Inr rs', w') \<Rightarrow> upload_file_chunks env t org key ml path (i + length xs) rs' ys w')"
proof (induction xs arbitrary: i rs w)
  case Nil
  then show ?case by simp
next
  case (Cons c xs)
  show ?case
  proof (cases path)
    case None
    show ?thesis
      unfolding None append_Cons file_loop_live_Cons
      by (auto simp: Cons.IH [unfolded None] Let_def split: sum.splits prod.splits)
  next
    case (Some dir)
    show ?thesis
      unfolding Some append_Cons file_loop_dry_Cons
      by (auto simp: Cons.IH [unfolded Some] split: sum.splits prod.splits)
  qed
qed

lemma file_loop_dry_files:
  "upload_file_chunks env t org key ml (Some dir) i rs chunks w = (Inr texts, w') \<Longrightarrow>
   texts = rs \<and>
   (\<exists>new. files w' = files w @ new \<and> length new = length chunks \<and>
      (\<forall>j < length chunks. \<exists>m. call_modify_lambda ml (chunks ! j) = Inr m \<and>
         new ! j = (chunk_path dir t (i + j), stream_of env (ticks w + j) m)))"
proof (induction chunks arbitrary: i w)
  case Nil
  then show ?case by simp
next
  case (Cons c chunks)
  from Cons.prems obtain m where m: "call_modify_lambda ml c = Inr m"
    and ok: "can_open env (chunk_path dir t i)"
    and rest: "upload_file_chunks env t org key ml (Some dir) (Suc i) rs chunks
        (w\<lparr>ticks := Suc (ticks w),
           files := files w @ [(chunk_path dir t i, stream_of env (ticks w) m)]\<rparr>) = (Inr texts, w')"
    by (auto simp: file_loop_dry_Cons split: sum.splits if_splits)
  from Cons.IH [OF rest] obtain new where new: "texts = rs"
    "files w' = files w @ (chunk_path dir t i, stream_of env (ticks w) m) # new"
    "length new = length chunks"
    "\<forall>j < length chunks. \<exists>m. call_modify_lambda ml (chunks ! j) = Inr m \<and>
         new ! j = (chunk_path dir t (Suc i + j), stream_of env (Suc (ticks w) + j) m)"
    by auto
  let ?new = "(chunk_path dir t i, stream_of env (ticks w) m) # new"
  have "\<forall>j < length (c # chunks). \<exists>m. call_modify_lambda ml ((c # chunks) ! j) = Inr m \<and>
         ?new ! j = (chunk_path dir t (i + j), stream_of env (ticks w + j) m)"
    using m new(4) by (auto simp: nth_Cons split: nat.splits)
  then show ?case using new by auto
qed

lemma file_loop_frame:
  "upload_file_chunks env t org key ml path i rs chunks w = (res, w') \<Longrightarrow>
   heap w' = heap w \<and> handlers w' = handlers w \<and> log_records w' = log_records w \<and>
   (path \<noteq> None \<longrightarrow> requests w' = requests w) \<and>
   (path = None \<longrightarrow> files w' = files w)"
proof (induction chunks arbitrary: i rs w)
  case Nil
  then show ?case by simp
next
  case (Cons c chunks)
  show ?case
  proof (cases path)
    case None
    with Cons.prems Cons.IH [where w = "w\<lparr>ticks := Suc (ticks w), requests := requests w @ [r]\<rparr>" for r]
    show ?thesis
      by (fastforce simp: file_loop_live_Cons Let_def split: sum.splits if_splits)
  next
    case (Some dir)
    with Cons.prems Cons.IH [where w = "w\<lparr>ticks := Suc (ticks w), files := files w @ [f]\<rparr>" for f]
    show ?thesis
      by (fastforce simp: file_loop_dry_Cons split: sum.splits if_splits)
  qed
qed

lemma file_loop_live_requests:
  "upload_file_chunks env t org key ml None i rs chunks w = (Inr texts, w') \<Longrightarrow>
   \<exists>sent new. requests w' = requests w @ sent \<and> texts = rs @ new \<and>
      length sent = length chunks \<and> length new = length chunks \<and>
      (\<forall>j < length chunks. \<exists>m r. call_modify_lambda ml (chunks ! j) = Inr m \<and>
         sent ! j = dash_request org key t (stream_of env (ticks w + j) m) \<and>
         server env (requests w @ take j sent) (sent ! j) = Inr r \<and>
         \<not> (400 \<le> status_code r \<and> status_code r < 600) \<and>
         new ! j = response_text r)"
proof (induction chunks arbitrary: i rs w)
  case Nil
  then show ?case by simp
next
  case (Cons c chunks)
  from Cons.prems obtain m0 r0 where m: "call_modify_lambda ml c = Inr m0"
    and r: "server env (requests w) (dash_request org key t (stream_of env (ticks w) m0)) = Inr r0"
      "\<not> (400 \<le> status_code r0 \<and> status_code r0 < 600)"
    and rest: "upload_file_chunks env t org key ml None (Suc i) (rs @ [response_text r0]) chunks
        (w\<lparr>ticks := Suc (ticks w),
           requests := requests w @ [dash_request org key t (stream_of env (ticks w) m0)]\<rparr>)
        = (Inr texts, w')"
    by (auto simp: file_loop_live_Cons Let_def split: sum.splits if_splits)
  let ?q = "dash_request org key t (stream_of env (ticks w) m0)"
  from Cons.IH [OF rest] obtain sent new where IH:
    "requests w' = requests w @ ?q # sent" "texts = rs @ response_text r0 # new"
    "length sent = length chunks" "length new = length chunks"
    "\<forall>j < length chunks. \<exists>m r. call_modify_lambda ml (chunks ! j) = Inr m \<and>
         sent ! j = dash_request org key t (stream_of env (Suc (ticks w) + j) m) \<and>
         server env ((requests w @ [?q]) @ take j sent) (sent ! j) = Inr r \<and>
         \<not> (400 \<le> status_code r \<and> status_code r < 600) \<and>
         new ! j = response_text r"
    by auto
  have "\<forall>j < length (c # chunks). \<exists>m r. call_modify_lambda ml ((c # chunks) ! j) = Inr m \<and>
         (?q # sent) ! j = dash_request org key t (stream_of env (ticks w + j) m) \<and>
         server env (requests w @ take j (?q # sent)) ((?q # sent) ! j) = Inr r \<and>
         \<not> (400 \<le> status_code r \<and> status_code r < 600) \<and>
         (response_text r0 # new) ! j = response_text r"
  proof (intro allI impI)
    fix j assume j: "j < length (c # chunks)"
    show "\<exists>m r. call_modify_lambda ml ((c # chunks) ! j) = Inr m \<and>
         (?q # sent) ! j = dash_request org key t (stream_of env (ticks w + j) m) \<and>
         server env (requests w @ take j (?q # sent)) ((?q # sent) ! j) = Inr r \<and>
         \<not> (400 \<le> status_code r \<and> status_code r < 600) \<and>
         (response_text r0 # new) ! j = response_text r"
    proof (cases j)
      case 0
      then show ?thesis using m r by auto
    next
      case (Suc j')
      then have "j' < length chunks" using j by simp
      from IH(5) [rule_format, OF this] Suc show ?thesis by auto
    qed
  qed
  then show ?case using IH(1-4) by (intro exI [of _ "?q # sent"] exI [of _ "response_text r0 # new"]) simp
qed

lemma file_loop_ticks:
  "upload_file_chunks env t org key ml path i rs chunks w = (Inr texts, w') \<Longrightarrow>
   ticks w' = ticks w + length chunks"
proof (induction chunks arbitrary: i rs w)
  case Nil
  then show ?case by simp
next
  case (Cons c chunks)
  show ?case
  proof (cases path)
    case None
    with Cons.prems
      Cons.IH [where w = "w\<lparr>ticks := Suc (ticks w), requests := requests w @ [r]\<rparr>" for r]
    show ?thesis
      by (fastforce simp: file_loop_live_Cons Let_def split: sum.splits if_splits)
  next
    case (Some dir)
    with Cons.prems Cons.IH [where w = "w\<lparr>ticks := Suc (ticks w), files := files w @ [f]\<rparr>" for f]
    show ?thesis
      by (fastforce simp: file_loop_dry_Cons split: sum.splits if_splits)
  qed
qed

subsection \<open>The loop of the dataframe-based entry point\<close>

lemma data_loop_live_Cons:
  "upload_data_chunks env t org key None i (c # chunks) w =
     (let request = dash_request org key t (stream_of env (ticks w) c);
          w2 = w\<lparr>ticks := Suc (ticks w), requests := requests w @ [request]\<rparr>
      in case server env (requests w) request of
           Inl e \<Rightarrow> (Inl e, w2)
         | Inr r \<Rightarrow>
             if 400 \<le> status_code r \<and> status_code r < 600
             then (Inl (HTTPError (status_code r)), w2)
             else upload_data_chunks env t org key None (Suc i) chunks
                    (logger_info (response_text r) w2))"
  by (simp add: create_stream_of upload_csv_eq Let_def split: sum.splits)

lemma data_loop_dry_Cons:
  "upload_data_chunks env t org key (Some dir) i (c # chunks) w =
     (if can_open env (chunk_path dir t i)
      then upload_data_chunks env t org key (Some dir) (Suc i) chunks
             (w\<lparr>ticks := Suc (ticks w),
                files := files w @ [(chunk_path dir t i, stream_of env (ticks w) c)]\<rparr>)
      else (Inl OSError, w\<lparr>ticks := Suc (ticks w)\<rparr>))"
  by (simp add: create_stream_of write_file_def chunk_path_def)

declare upload_data_chunks.simps(2) [simp del]

lemma logger_info_fields [simp]:
  "ticks (logger_info x w) = ticks w"
  "requests (logger_info x w) = requests w"
  "files (logger_info x w) = files w"
  "handlers (logger_info x w) = handlers w"
  "heap (logger_info x w) = heap w"
  "log_records (logger_info x w) = log_records w @ map (\<lambda>h. (h, x)) (handlers w)"
  by (simp_all add: logger_info_def)

lemma data_loop_frame:
  "upload_data_chunks env t org key path i chunks w = (res, w') \<Longrightarrow>
   heap w' = heap w \<and> handlers w' = handlers w \<and>
   (path \<noteq> None \<longrightarrow> requests w' = requests w \<and> log_records w' = log_records w) \<and>
   (path = None \<longrightarrow> files w' = files w)"
proof (induction chunks arbitrary: i w)
  case Nil
  then show ?case by simp
next
  case (Cons c chunks)
  show ?case
  proof (cases path)
    case None
    with Cons.prems
      Cons.IH [where w = "logger_info x (w\<lparr>ticks := Suc (ticks w), requests := requests w @ [r]\<rparr>)" for x r]
    show ?thesis
      by (fastforce simp: data_loop_live_Cons Let_def split: sum.splits if_splits)
  next
    case (Some dir)
    with Cons.prems Cons.IH [where w = "w\<lparr>ticks := Suc (ticks w), files := files w @ [f]\<rparr>" for f]
    show ?thesis
      by (fastforce simp: data_loop_dry_Cons split: sum.splits if_splits)
  qed
qed

lemma data_loop_ticks:
  "upload_data_chunks env t org key path i chunks w = (Inr u, w') \<Longrightarrow>
   ticks w' = ticks w + length chunks"
proof (induction chunks arbitrary: i w)
  case Nil
  then show ?case by simp
next
  case (Cons c chunks)
  show ?case
  proof (cases path)
    case None
    with Cons.prems
      Cons.IH [where w = "logger_info x (w\<lparr>ticks := Suc (ticks w), requests := requests w @ [r]\<rparr>)" for x r]
    show ?thesis
      by (fastforce simp: data_loop_live_Cons Let_def split: sum.splits if_splits)
  next
    case (Some dir)
    with Cons.prems Cons.IH [where w = "w\<lparr>ticks := Suc (ticks w), files := files w @ [f]\<rparr>" for f]
    show ?thesis
      by (fastforce simp: data_loop_dry_Cons split: sum.splits if_splits)
  qed
qed

lemma data_loop_append:
  "upload_data_chunks env t org key path i (xs @ ys) w =
     (case upload_data_chunks env t org key path i xs w of
        (Inl e, w') \<Rightarrow> (Inl e, w')
      | (Inr u, w') \<Rightarrow> upload_data_chunks env t org key path (i + length xs) ys w')"
proof (induction xs arbitrary: i w)
  case Nil
  then show ?case by simp
next
  case (Cons c xs)
  show ?case
  proof (cases path)
    case None
    show ?thesis
      unfolding None append_Cons data_loop_live_Cons
      by (auto simp: Cons.IH [unfolded None] Let_def split: sum.splits prod.splits)
  next
    case (Some dir)
    show ?thesis
      unfolding Some append_Cons data_loop_dry_Cons
      by (auto simp: Cons.IH [unfolded Some] split: sum.splits prod.splits)
  qed
qed

lemma data_loop_dry_files:
  "upload_data_chunks env t org key (Some dir) i chunks w = (Inr u, w') \<Longrightarrow>
   \<exists>new. files w' = files w @ new \<and> length new = length chunks \<and>
      (\<forall>j < length chunks.
         new ! j = (chunk_path dir t (i + j), stream_of env (ticks w + j) (chunks ! j)))"
proof (induction chunks arbitrary: i w)
  case Nil
  then show ?case by simp
next
  case (Cons c chunks)
  from Cons.prems have ok: "can_open env (chunk_path dir t i)"
    and rest: "upload_data_chunks env t org key (Some dir) (Suc i) chunks
        (w\<lparr>ticks := Suc (ticks w),
           files := files w @ [(chunk_path dir t i, stream_of env (ticks w) c)]\<rparr>) = (Inr u, w')"
    by (auto simp: data_loop_dry_Cons split: if_splits)
  from Cons.IH [OF rest] obtain new where new:
    "files w' = files w @ (chunk_path dir t i, stream_of env (ticks w) c) # new"
    "length new = length chunks"
    "\<forall>j < length chunks.
         new ! j = (chunk_path dir t (Suc i + j), stream_of env (Suc (ticks w) + j) (chunks ! j))"
    by auto
  let ?new = "(chunk_path dir t i, stream_of env (ticks w) c) # new"
  have "\<forall>j < length (c # chunks).
         ?new ! j = (chunk_path dir t (i + j), stream_of env (ticks w + j) ((c # chunks) ! j))"
    using new(3) by (auto simp: nth_Cons split: nat.splits)
  then show ?case using new by auto
qed

lemma data_loop_live_requests:
  "upload_data_chunks env t org key None i chunks w = (Inr u, w') \<Longrightarrow>
   \<exists>sent texts. requests w' = requests w @ sent \<and>
      log_records w' = log_records w @ concat (map (\<lambda>x. map (\<lambda>h. (h, x)) (handlers w)) texts) \<and>
      length sent = length chunks \<and> length texts = length chunks \<and>
      (\<forall>j < length chunks. \<exists>r.
         sent ! j = dash_request org key t (stream_of env (ticks w + j) (chunks ! j)) \<and>
         server env (requests w @ take j sent) (sent ! j) = Inr r \<and>
         \<not> (400 \<le> status_code r \<and> status_code r < 600) \<and>
         texts ! j = response_text r)"
proof (induction chunks arbitrary: i w)
  case Nil
  then show ?case by simp
next
  case (Cons c chunks)
  let ?q = "dash_request org key t (stream_of env (ticks w) c)"
  from Cons.prems obtain r0 where
    r: "server env (requests w) ?q = Inr r0"
      "\<not> (400 \<le> status_code r0 \<and> status_code r0 < 600)"
    and rest: "upload_data_chunks env t org key None (Suc i) chunks
        (logger_info (response_text r0)
           (w\<lparr>ticks := Suc (ticks w), requests := requests w @ [?q]\<rparr>)) = (Inr u, w')"
    by (auto simp: data_loop_live_Cons Let_def split: sum.splits if_splits)
  from Cons.IH [OF rest] obtain sent texts where IH:
    "requests w' = requests w @ ?q # sent"
    "log_records w' = log_records w @ map (\<lambda>h. (h, response_text r0)) (handlers w) @
        concat (map (\<lambda>x. map (\<lambda>h. (h, x)) (handlers w)) texts)"
    "length sent = length chunks" "length texts = length chunks"
    "\<forall>j < length chunks. \<exists>r.
         sent ! j = dash_request org key t (stream_of env (Suc (ticks w) + j) (chunks ! j)) \<and>
         server env ((requests w @ [?q]) @ take j sent) (sent ! j) = Inr r \<and>
         \<not> (400 \<le> status_code r \<and> status_code r < 600) \<and>
         texts ! j = response_text r"
    by auto
  have key: "\<forall>j < length (c # chunks). \<exists>r.
         (?q # sent) ! j = dash_request org key t (stream_of env (ticks w + j) ((c # chunks) ! j)) \<and>
         server env (requests w @ take j (?q # sent)) ((?q # sent) ! j) = Inr r \<and>
         \<not> (400 \<le> status_code r \<and> status_code r < 600) \<and>
         (response_text r0 # texts) ! j = response_text r"
  proof (intro allI impI)
    fix j assume j: "j < length (c # chunks)"
    show "\<exists>r.
         (?q # sent) ! j = dash_request org key t (stream_of env (ticks w + j) ((c # chunks) ! j)) \<and>
         server env (requests w @ take j (?q # sent)) ((?q # sent) ! j) = Inr r \<and>
         \<not> (400 \<le> status_code r \<and> status_code r < 600) \<and>
         (response_text r0 # texts) ! j = response_text r"
    proof (cases j)
      case 0
      then show ?thesis using r by auto
    next
      case (Suc j')
      then have "j' < length chunks" using j by simp
      from IH(5) [rule_format, OF this] Suc show ?thesis by auto
    qed
  qed
  show ?case
  proof (intro exI conjI)
    show "requests w' = requests w @ (?q # sent)" using IH(1) by simp
    show "log_records w' = log_records w @
        concat (map (\<lambda>x. map (\<lambda>h. (h, x)) (handlers w)) (response_text r0 # texts))"
      using IH(2) by simp
    show "length (?q # sent) = length (c # chunks)" using IH(3) by simp
    show "length (response_text r0 # texts) = length (c # chunks)" using IH(4) by simp
    show "\<forall>j < length (c # chunks). \<exists>r.
         (?q # sent) ! j = dash_request org key t (stream_of env (ticks w + j) ((c # chunks) ! j)) \<and>
         server env (requests w @ take j (?q # sent)) ((?q # sent) ! j) = Inr r \<and>
         \<not> (400 \<le> status_code r \<and> status_code r < 600) \<and>
         (response_text r0 # texts) ! j = response_text r"
      by (rule key)
  qed
qed

section \<open>The preparation of \<^verbatim>\<open>upload_dataframe\<close>\<close>

lemma prepare_cannot_open:
  "\<not> can_open env (log_file_of env t w) \<Longrightarrow>
   prepare_dataframe env dataframe t dtypes snap w = (Inl OSError, w\<lparr>ticks := Suc (ticks w)\<rparr>)"
  by (simp add: prepare_dataframe_def read_clock_def add_file_handler_def log_file_of_def)

lemma prepare_no_dtypes:
  "can_open env (log_file_of env t w) \<Longrightarrow>
   prepare_dataframe env dataframe t [] snap w =
     (Inr dataframe,
      w\<lparr>ticks := Suc (ticks w), handlers := handlers w @ [log_file_of env t w],
        heap := (if snap
                 then (heap w)[dataframe := setitem ''snapshot_timestamp'' (snapshot_of env w)
                                                (heap w ! dataframe)]
                 else heap w)\<rparr>)"
  by (simp add: prepare_dataframe_def read_clock_def add_file_handler_def log_file_of_def
      snapshot_of_def)

lemma prepare_cast_fails:
  "can_open env (log_file_of env t w) \<Longrightarrow> dtypes \<noteq> [] \<Longrightarrow>
   astype dtypes (heap w ! dataframe) = Inl e \<Longrightarrow>
   prepare_dataframe env dataframe t dtypes snap w =
     (Inl e, w\<lparr>ticks := Suc (ticks w), handlers := handlers w @ [log_file_of env t w]\<rparr>)"
  by (simp add: prepare_dataframe_def read_clock_def add_file_handler_def log_file_of_def)

lemma prepare_cast:
  "can_open env (log_file_of env t w) \<Longrightarrow> dtypes \<noteq> [] \<Longrightarrow>
   astype dtypes (heap w ! dataframe) = Inr cast \<Longrightarrow>
   prepare_dataframe env dataframe t dtypes snap w =
     (Inr (length (heap w)),
      w\<lparr>ticks := Suc (ticks w), handlers := handlers w @ [log_file_of env t w],
        heap := heap w @
          [if snap then setitem ''snapshot_timestamp'' (snapshot_of env w) cast else cast]\<rparr>)"
  by (simp add: prepare_dataframe_def read_clock_def add_file_handler_def log_file_of_def
      snapshot_of_def new_dataframe_def)

lemma prepare_frame:
  "prepare_dataframe env dataframe t dtypes snap w = (res, w') \<Longrightarrow>
   requests w' = requests w \<and> files w' = files w \<and> log_records w' = log_records w \<and>
   ticks w' = Suc (ticks w)"
  by (cases "can_open env (log_file_of env t w)"; cases "dtypes = []";
      cases "astype dtypes (heap w ! dataframe)")
     (auto simp: prepare_cannot_open prepare_no_dtypes prepare_cast_fails prepare_cast)

section \<open>Casts and column assignment\<close>

lemma collect_Inr:
  "collect xs = Inr vs \<Longrightarrow> length vs = length xs \<and> (\<forall>i < length xs. xs ! i = Inr (vs ! i))"
proof (induction xs arbitrary: vs)
  case Nil
  then show ?case by simp
next
  case (Cons x xs)
  then show ?case
    by (auto simp: nth_Cons split: sum.splits nat.splits)
qed

lemma collect_Inl:
  "x \<in> set xs \<Longrightarrow> isl x \<Longrightarrow> isl (collect xs)"
  by (induction xs) (auto split: sum.splits)

lemma astype_cells:
  assumes "astype dtypes df = Inr cast"
  shows "columns cast = columns df \<and> length (rows cast) = length (rows df) \<and>
         (\<forall>i < length (rows df). length (rows cast ! i) = length (columns df) \<and>
            (\<forall>j < length (columns df).
               case map_of dtypes (columns df ! j) of
                 None \<Rightarrow> rows cast ! i ! j = rows df ! i ! j
               | Some ty \<Rightarrow> cast_cell (infer_storage (column_values df j)) ty (rows df ! i ! j) = Inr (rows cast ! i ! j)))"
proof -
  let ?cast = "\<lambda>(j, c). cast_column (map_of dtypes c) (column_values df j)"
  from assms obtain cols where
    cols: "collect (map ?cast (enumerate 0 (columns df))) = Inr cols"
    and cast: "cast = df\<lparr>rows := map (\<lambda>i. map (\<lambda>col. col ! i) cols) [0 ..< length (rows df)]\<rparr>"
    by (auto simp: astype_def split: if_splits sum.splits)
  from collect_Inr [OF cols] have len: "length cols = length (columns df)"
    and col: "\<And>j. j < length (columns df) \<Longrightarrow>
        cast_column (map_of dtypes (columns df ! j)) (column_values df j) = Inr (cols ! j)"
    by (auto simp: nth_enumerate_eq)
  have rc: "rows cast ! i ! j = cols ! j ! i" "length (rows cast ! i) = length (columns df)"
    if "i < length (rows df)" "j < length (columns df)" for i j
    using that cast len by simp_all
  have width: "length (rows cast ! i) = length (columns df)" if "i < length (rows df)" for i
    using that cast len by simp
  have cell: "case map_of dtypes (columns df ! j) of
                 None \<Rightarrow> rows cast ! i ! j = rows df ! i ! j
               | Some ty \<Rightarrow> cast_cell (infer_storage (column_values df j)) ty (rows df ! i ! j) = Inr (rows cast ! i ! j)"
    if "i < length (rows df)" "j < length (columns df)" for i j
  proof (cases "map_of dtypes (columns df ! j)")
    case None
    with col [OF that(2)] have "cols ! j = map (\<lambda>row. row ! j) (rows df)"
      by (simp add: cast_column_def column_values_def)
    with that None show ?thesis by (simp add: rc)
  next
    case (Some ty)
    with col [OF that(2)] have "collect (map (cast_cell (infer_storage (column_values df j)) ty) (column_values df j)) = Inr (cols ! j)"
      by (simp add: cast_column_def)
    from collect_Inr [OF this] that Some show ?thesis
      by (auto simp: column_values_def rc)
  qed
  show ?thesis
    using cast width cell by simp
qed

lemma astype_fails:
  assumes "i < length (rows df)" "j < length (columns df)"
    and "map_of dtypes (columns df ! j) = Some ty"
    and "isl (cast_cell (infer_storage (column_values df j)) ty (rows df ! i ! j))"
  shows "isl (astype dtypes df)"
proof (cases "list_ex (\<lambda>k. k \<notin> set (columns df)) (map fst dtypes)")
  case True
  then show ?thesis by (simp add: astype_def)
next
  case False
  let ?cast = "\<lambda>(j, c). cast_column (map_of dtypes c) (column_values df j)"
  have "cast_cell (infer_storage (column_values df j)) ty (rows df ! i ! j) \<in> set (map (cast_cell (infer_storage (column_values df j)) ty) (column_values df j))"
    using assms(1) by (auto simp: column_values_def)
  from collect_Inl [OF this assms(4)] assms(3)
  have "isl (cast_column (map_of dtypes (columns df ! j)) (column_values df j))"
    by (simp add: cast_column_def)
  moreover have "cast_column (map_of dtypes (columns df ! j)) (column_values df j)
      \<in> set (map ?cast (enumerate 0 (columns df)))"
  proof -
    have "(j, columns df ! j) \<in> set (enumerate 0 (columns df))"
      using assms(2) by (auto simp: in_set_enumerate_eq)
    then show ?thesis by force
  qed
  ultimately have "isl (collect (map ?cast (enumerate 0 (columns df))))"
    by (rule collect_Inl [rotated])
  then show ?thesis using False by (auto simp: astype_def split: sum.splits)
qed

lemma setitem_new:
  "name \<notin> set (columns df) \<Longrightarrow>
   columns (setitem name v df) = columns df @ [name] \<and>
   rows (setitem name v df) = map (\<lambda>row. row @ [v]) (rows df)"
  by (simp add: setitem_def)

lemma setitem_old:
  "name \<in> set (columns df) \<Longrightarrow>
   columns (setitem name v df) = columns df \<and> length (rows (setitem name v df)) = length (rows df)"
  by (simp add: setitem_def)

lemma setitem_cells:
  assumes "row \<in> set (rows (setitem name v df))" "(c, x) \<in> set (zip (columns (setitem name v df)) row)"
    and "c = name" "rectangular df"
  shows "x = v"
proof (cases "name \<in> set (columns df)")
  case True
  with assms(1) obtain old where old: "old \<in> set (rows df)"
    and row: "row = map2 (\<lambda>c x. if c = name then v else x) (columns df) old"
    by (auto simp: setitem_def)
  from assms(2) True row have "(c, x) \<in> set (zip (columns df) (map2 (\<lambda>c x. if c = name then v else x) (columns df) old))"
    by (simp add: setitem_def)
  then obtain k where "k < length (columns df)" "k < length old" "c = columns df ! k"
    "x = (if columns df ! k = name then v else old ! k)"
    by (auto simp: in_set_zip)
  with assms(3) show ?thesis by simp
next
  case False
  with assms(1) obtain old where old: "old \<in> set (rows df)" and row: "row = old @ [v]"
    by (auto simp: setitem_def)
  have len: "length old = length (columns df)"
    using assms(4) old by (auto simp: rectangular_def list_all_iff)
  from assms(2) False row len have "(c, x) \<in> set (zip (columns df) old) \<or> (c, x) = (name, v)"
    by (auto simp: setitem_def)
  with assms(3) False show ?thesis
    by (auto dest: set_zip_leftD)
qed

lemma py_slice_subset: "set (py_slice xs a b) \<subseteq> set xs"
  unfolding py_slice_def Let_def
  using set_take_subset set_drop_subset by fast

lemma data_chunks_rows:
  assumes "data_chunks chunksize df = Inr chunks" "c \<in> set chunks"
  shows "columns c = columns df \<and> set (rows c) \<subseteq> set (rows df)"
  using assms py_slice_subset [of "rows df"]
  by (fastforce simp: data_chunks_def row_slice_def split: sum.splits)

section \<open>The written text\<close>

lemma quote_field_ends:
  "hd (quote_field s) = CHR 0x22 \<and> last (quote_field s) = CHR 0x22 \<and> 2 \<le> length (quote_field s)"
  by (simp add: quote_field_def)

lemma digit_char_set: "d < 10 \<Longrightarrow> digit_char d \<in> set ''0123456789''"
  unfolding digit_char_def by (rule nth_mem) simp

lemma str_nat_digits: "set (str_nat n) \<subseteq> set ''0123456789''"
proof (induction n rule: str_nat.induct)
  case (1 n)
  show ?case
  proof (cases "n < 10")
    case True
    then show ?thesis using digit_char_set [of n] by (subst str_nat.simps) simp
  next
    case False
    have "n mod 10 < 10" by simp
    from digit_char_set [OF this] 1 False show ?thesis
      by (subst str_nat.simps) simp
  qed
qed

lemma str_nat_nonempty: "str_nat n \<noteq> []"
  by (subst str_nat.simps) simp

lemma str_int_unquoted: "str_int i \<noteq> [] \<and> CHR 0x22 \<notin> set (str_int i) \<and> CHR '','' \<notin> set (str_int i)"
  using str_nat_digits [of "nat i"] str_nat_digits [of "nat (- i)"]
  by (auto simp: str_int_def str_nat_nonempty)

section \<open>Reading the written text back\<close>

subsection \<open>Integers\<close>

lemma digit_value_digit_char: "d < 10 \<Longrightarrow> digit_value (digit_char d) = Some d"
proof -
  assume "d < 10"
  then have "d = 0 \<or> d = 1 \<or> d = 2 \<or> d = 3 \<or> d = 4 \<or> d = 5 \<or> d = 6 \<or> d = 7 \<or>
      d = 8 \<or> d = 9"
    by arith
  then show ?thesis
    by (elim disjE) (simp_all add: digit_value_def digit_char_def)
qed

lemma parse_digits_snoc:
  "parse_digits b acc xs = Some v \<Longrightarrow> d < 10 \<Longrightarrow>
   parse_digits b acc (xs @ [digit_char d]) = Some (10 * v + d)"
proof (induction xs arbitrary: b acc)
  case Nil
  then show ?case by (simp add: digit_value_digit_char split: if_splits)
next
  case (Cons c cs)
  then show ?case by (auto split: option.splits if_splits)
qed

lemma parse_digits_str_nat: "parse_digits False 0 (str_nat n) = Some n"
proof (induction n rule: str_nat.induct)
  case (1 n)
  show ?case
  proof (cases "n < 10")
    case True
    then show ?thesis
      by (subst str_nat.simps) (simp add: digit_value_digit_char)
  next
    case False
    with 1 have "parse_digits False 0 (str_nat (n div 10)) = Some (n div 10)" by simp
    from parse_digits_snoc [OF this, of "n mod 10"] False show ?thesis
      by (subst str_nat.simps) simp
  qed
qed

lemma strip_id:
  assumes "s \<noteq> []" "\<not> is_space (hd s)" "\<not> is_space (last s)"
  shows "strip s = s"
proof -
  have "dropWhile is_space s = s"
    using assms(1,2) by (cases s) simp_all
  moreover have "dropWhile is_space (rev s) = rev s"
    using assms(1,3) by (cases "rev s") (simp_all add: last_rev [symmetric] del: last_rev)
  ultimately show ?thesis by (simp add: strip_def)
qed

lemma digit_not_space: "c \<in> set ''0123456789'' \<Longrightarrow> \<not> is_space c \<and> c \<noteq> CHR ''-'' \<and> c \<noteq> CHR ''+''"
  by (auto simp: is_space_def)

lemma long_from_string_str_int: "long_from_string (str_int i) = Inr i"
proof -
  let ?n = "if i < 0 then nat (- i) else nat i"
  have ne: "str_nat ?n \<noteq> []" by (rule str_nat_nonempty)
  have hd_digit: "hd (str_nat ?n) \<in> set ''0123456789''"
    and last_digit: "last (str_nat ?n) \<in> set ''0123456789''"
    using str_nat_digits [of ?n] ne hd_in_set last_in_set by blast+
  show ?thesis
  proof (cases "i < 0")
    case True
    have "strip (str_int i) = str_int i"
      using True ne last_digit digit_not_space [of "last (str_nat ?n)"]
      by (intro strip_id) (simp_all add: str_int_def is_space_def)
    then show ?thesis using True by (simp add: long_from_string_def str_int_def parse_digits_str_nat)
  next
    case False
    obtain c cs where cs: "str_nat (nat i) = c # cs"
      using ne False by (cases "str_nat (nat i)") simp_all
    have "strip (str_int i) = str_int i"
      using False ne hd_digit last_digit digit_not_space
      by (intro strip_id) (simp_all add: str_int_def)
    moreover have "c \<noteq> CHR ''-''" "c \<noteq> CHR ''+''"
      using hd_digit False cs digit_not_space [of c] by simp_all
    moreover have "parse_digits False 0 (c # cs) = Some (nat i)"
      using parse_digits_str_nat [of "nat i"] cs by simp
    ultimately show ?thesis using False cs
      by (simp add: long_from_string_def str_int_def)
  qed
qed

subsection \<open>Fields, records and tables\<close>

lemma read_escaped:
  "csv_records InQuoted f fs rs (concat (map (\<lambda>c. if c = CHR 0x22 then [c, c] else [c]) s) @ rest) =
   csv_records InQuoted (f @ s) fs rs rest"
  by (induction s arbitrary: f) simp_all

lemma read_unquoted:
  "CHR '','' \<notin> set t \<Longrightarrow> CHR 0x0A \<notin> set t \<Longrightarrow>
   csv_records InField f fs rs (t @ rest) = csv_records InField (f @ t) fs rs rest"
  by (induction t arbitrary: f) auto

lemma str_int_plain:
  "CHR '','' \<notin> set (str_int i) \<and> CHR 0x0A \<notin> set (str_int i) \<and> CHR 0x22 \<notin> set (str_int i) \<and>
   str_int i \<noteq> []"
  using str_nat_digits [of "nat i"] str_nat_digits [of "nat (- i)"]
  by (auto simp: str_int_def str_nat_nonempty)

text \<open>One written field followed by a comma or by the end of the record.\<close>

lemma read_field_comma:
  "csv_records StartField f0 fs rs (write_field c @ CHR '','' # rest) =
   csv_records StartField [] (fs @ [raw_field c]) rs rest"
proof (cases c)
  case (IntCell i)
  obtain d ds where d: "str_int i = d # ds"
    using str_int_plain [of i] by (cases "str_int i") auto
  with str_int_plain [of i] have "d \<noteq> CHR 0x22" "d \<noteq> CHR '',''" "d \<noteq> CHR 0x0A"
    "CHR '','' \<notin> set ds" "CHR 0x0A \<notin> set ds"
    by auto
  then show ?thesis using IntCell d by (simp add: read_unquoted)
next
  case (StrCell s)
  then show ?thesis by (simp add: quote_field_def read_escaped)
qed

lemma read_field_end:
  "csv_records StartField f0 fs rs (write_field c @ CHR 0x0A # rest) =
   csv_records StartRecord [] [] (rs @ [fs @ [raw_field c]]) rest"
proof (cases c)
  case (IntCell i)
  obtain d ds where d: "str_int i = d # ds"
    using str_int_plain [of i] by (cases "str_int i") auto
  with str_int_plain [of i] have "d \<noteq> CHR 0x22" "d \<noteq> CHR '',''" "d \<noteq> CHR 0x0A"
    "CHR '','' \<notin> set ds" "CHR 0x0A \<notin> set ds"
    by auto
  then show ?thesis using IntCell d by (simp add: read_unquoted)
next
  case (StrCell s)
  then show ?thesis by (simp add: quote_field_def read_escaped)
qed

lemma read_fields:
  "csv_records StartField f0 fs rs (join_fields (map write_field (c # cs)) @ CHR 0x0A # rest) =
   csv_records StartRecord [] [] (rs @ [fs @ map raw_field (c # cs)]) rest"
proof (induction cs arbitrary: c fs f0)
  case Nil
  then show ?case by (simp add: read_field_end)
next
  case (Cons c' cs)
  have "csv_records StartField f0 fs rs
      (join_fields (map write_field (c # c' # cs)) @ CHR 0x0A # rest) =
    csv_records StartField f0 fs rs
      (write_field c @ CHR '','' # (join_fields (map write_field (c' # cs)) @ CHR 0x0A # rest))"
    by simp
  also have "\<dots> = csv_records StartField [] (fs @ [raw_field c]) rs
      (join_fields (map write_field (c' # cs)) @ CHR 0x0A # rest)"
    by (rule read_field_comma)
  also have "\<dots> = csv_records StartRecord [] [] (rs @ [(fs @ [raw_field c]) @ map raw_field (c' # cs)]) rest"
    by (rule Cons.IH)
  finally show ?case by simp
qed

text \<open>The first field of a record: a written field never starts with a line feed or a comma.\<close>

lemma start_record_as_field:
  "csv_records StartRecord f0 [] rs (write_field c @ rest) =
   csv_records StartField f0 [] rs (write_field c @ rest)"
proof (cases c)
  case (IntCell i)
  obtain d ds where d: "str_int i = d # ds"
    using str_int_plain [of i] by (cases "str_int i") auto
  with str_int_plain [of i] have "d \<noteq> CHR 0x22" "d \<noteq> CHR '',''" "d \<noteq> CHR 0x0A"
    by auto
  then show ?thesis using IntCell d by simp
next
  case (StrCell s)
  then show ?thesis by (simp add: quote_field_def)
qed

lemma read_row:
  "csv_records StartRecord [] [] rs (writerow cells @ rest) =
   csv_records StartRecord [] [] (rs @ [map raw_field cells]) rest"
proof (cases cells)
  case Nil
  then show ?thesis by (simp add: writerow_def)
next
  case (Cons c cs)
  have "join_fields (map write_field (c # cs)) = write_field c @ tl_text" if
    "tl_text = drop (length (write_field c)) (join_fields (map write_field (c # cs)))" for tl_text
    using that by (cases cs) simp_all
  then obtain tl_text where split: "join_fields (map write_field (c # cs)) = write_field c @ tl_text"
    by blast
  have "csv_records StartRecord [] [] rs (writerow cells @ rest) =
      csv_records StartRecord [] [] rs (write_field c @ (tl_text @ CHR 0x0A # rest))"
    using Cons split by (simp add: writerow_def)
  also have "\<dots> = csv_records StartField [] [] rs (write_field c @ (tl_text @ CHR 0x0A # rest))"
    by (rule start_record_as_field)
  also have "\<dots> = csv_records StartField [] [] rs
      (join_fields (map write_field (c # cs)) @ CHR 0x0A # rest)"
    using split by simp
  also have "\<dots> = csv_records StartRecord [] [] (rs @ [[] @ map raw_field (c # cs)]) rest"
    by (rule read_fields)
  finally show ?thesis using Cons by simp
qed

lemma read_rows_text:
  "csv_records StartRecord [] [] rs (concat (map writerow table) @ rest) =
   csv_records StartRecord [] [] (rs @ map (map raw_field) table) rest"
proof (induction table arbitrary: rs)
  case Nil
  then show ?case by simp
next
  case (Cons r table)
  have "csv_records StartRecord [] [] rs (concat (map writerow (r # table)) @ rest) =
      csv_records StartRecord [] [] rs (writerow r @ (concat (map writerow table) @ rest))"
    by simp
  also have "\<dots> = csv_records StartRecord [] [] (rs @ [map raw_field r])
      (concat (map writerow table) @ rest)"
    by (rule read_row)
  also have "\<dots> = csv_records StartRecord [] [] ((rs @ [map raw_field r]) @ map (map raw_field) table) rest"
    by (rule Cons.IH)
  finally show ?case by simp
qed

lemma all_some_map:
  "(\<And>x. x \<in> set xs \<Longrightarrow> f (g x) = Some x) \<Longrightarrow> all_some (map (f \<circ> g) xs) = Some xs"
  by (induction xs) simp_all

lemma field_cell_raw: "field_cell (raw_field c) = Some c"
  by (cases c) (simp_all add: long_from_string_str_int)

lemma read_csv_text_to_csv: "read_csv_text (to_csv df) = Some df"
proof -
  have "csv_records StartRecord [] [] [] (to_csv df) =
      Some (map raw_field (map StrCell (columns df)) # map (map raw_field) (rows df))"
    using read_rows_text [of "[]" "map StrCell (columns df) # rows df" "[]"]
    by (simp add: to_csv_def)
  moreover have "all_some (map field_label (map raw_field (map StrCell (columns df)))) =
      Some (columns df)"
    using all_some_map [of "columns df" field_label "raw_field \<circ> StrCell"]
    by (simp add: comp_def)
  moreover have "all_some (map (\<lambda>r. all_some (map field_cell r)) (map (map raw_field) (rows df))) =
      Some (rows df)"
  proof -
    have "all_some (map field_cell (map raw_field r)) = Some r" for r
      using all_some_map [of r field_cell raw_field] by (simp add: comp_def field_cell_raw)
    then show ?thesis
      using all_some_map [of "rows df" "\<lambda>r. all_some (map field_cell r)" "map raw_field"]
      by (simp add: comp_def)
  qed
  ultimately show ?thesis by (simp add: read_csv_text_def)
qed

section \<open>The claims\<close>

subsection \<open>Claim C1\<close>

text \<open>
  Claim C1 says that both entry points split a table of \<open>N\<close> rows, for a positive chunk
  size \<open>C\<close>, into exactly \<open>\<lceil>N / C\<rceil>\<close> contiguous chunks of at most \<open>C\<close> rows whose
  concatenation is the table. For \<^verbatim>\<open>read_and_upload_file_to_dash\<close> the count is wrong
  when the file holds a header and no data row: the reader yields one empty chunk, and
  the entry point serializes and sends it, while \<open>\<lceil>0 / 3\<rceil> = 0\<close>.
\<close>

theorem header_only_file_yields_one_chunk:
  "read_csv_chunks 3 header_only = Inr [header_only] \<and>
   int (length [header_only]) \<noteq> \<lceil>real (length (rows header_only)) / real_of_int 3\<rceil> \<and>
   length (requests (snd (read_and_upload_file_to_dash accepting_env header_only
      ''t'' ''org'' ''key'' 3 None None initial_world))) = 1"
  by (simp add: read_csv_chunks_def header_only_def read_and_upload_file_to_dash_def
      file_loop_live_Cons call_modify_lambda_def Let_def accepting_env_def initial_world_def)

text \<open>
  Claim C1 as amended: for a positive chunk size, \<^verbatim>\<open>upload_dataframe\<close> iterates over exactly
  \<open>\<lceil>N / C\<rceil>\<close> chunks, and \<^verbatim>\<open>read_and_upload_file_to_dash\<close> over exactly \<open>\<lceil>N / C\<rceil>\<close>
  chunks when the table has a row and over one empty chunk when it has none. In both,
  every chunk has the table's columns and at most \<open>C\<close> rows, and the rows of the chunks,
  concatenated in processing order, are the rows of the table.
\<close>

theorem chunks_partition_the_rows:
  assumes "0 < chunksize"
  shows "(\<exists>chunks. data_chunks chunksize df = Inr chunks \<and>
            int (length chunks) = \<lceil>real (length (rows df)) / real_of_int chunksize\<rceil> \<and>
            (\<forall>c \<in> set chunks. columns c = columns df \<and> int (length (rows c)) \<le> chunksize) \<and>
            concat (map rows chunks) = rows df) \<and>
         (\<exists>chunks. read_csv_chunks chunksize df = Inr chunks \<and>
            int (length chunks) =
              (if rows df = [] then 1
               else \<lceil>real (length (rows df)) / real_of_int chunksize\<rceil>) \<and>
            (\<forall>c \<in> set chunks. columns c = columns df \<and> int (length (rows c)) \<le> chunksize) \<and>
            concat (map rows chunks) = rows df)"
proof (intro conjI)
  let ?n = "int (length (rows df))"
  let ?starts = "range_from 0 ?n chunksize"
  let ?chunks = "map (\<lambda>i. row_slice df i (i + chunksize)) ?starts"
  have "int (length ?chunks) = \<lceil>real (length (rows df)) / real_of_int chunksize\<rceil>"
    using assms ceiling_chunks [of chunksize "length (rows df)"]
    by (simp add: range_from_length)
  moreover have "\<forall>c \<in> set ?chunks. columns c = columns df \<and> int (length (rows c)) \<le> chunksize"
  proof
    fix c assume "c \<in> set ?chunks"
    then obtain i where i: "i \<in> set ?starts" and c: "c = row_slice df i (i + chunksize)"
      by auto
    from i have "0 \<le> i" using assms by (rule range_from_lower [rotated])
    then have "rows c = take (nat chunksize) (drop (nat i) (rows df))"
      using assms c by (simp add: row_slice_def py_slice_chunk)
    then show "columns c = columns df \<and> int (length (rows c)) \<le> chunksize"
      using assms c by (simp add: row_slice_def)
  qed
  moreover have "concat (map rows ?chunks) = rows df"
  proof -
    have "map rows ?chunks = map (\<lambda>j. py_slice (rows df) j (j + chunksize)) ?starts"
      by (simp add: row_slice_def)
    moreover have "concat (map (\<lambda>j. py_slice (rows df) j (j + chunksize)) ?starts) = rows df"
      using assms range_from_concat [of chunksize 0 ?n "rows df"] by simp
    ultimately show ?thesis by (simp only:)
  qed
  ultimately show "\<exists>chunks. data_chunks chunksize df = Inr chunks \<and>
      int (length chunks) = \<lceil>real (length (rows df)) / real_of_int chunksize\<rceil> \<and>
      (\<forall>c \<in> set chunks. columns c = columns df \<and> int (length (rows c)) \<le> chunksize) \<and>
      concat (map rows chunks) = rows df"
    using assms by (simp add: data_chunks_positive)
next
  let ?c = "nat chunksize"
  have pos: "0 < ?c" using assms by simp
  show "\<exists>chunks. read_csv_chunks chunksize df = Inr chunks \<and>
      int (length chunks) =
        (if rows df = [] then 1 else \<lceil>real (length (rows df)) / real_of_int chunksize\<rceil>) \<and>
      (\<forall>c \<in> set chunks. columns c = columns df \<and> int (length (rows c)) \<le> chunksize) \<and>
      concat (map rows chunks) = rows df"
  proof (cases "rows df = []")
    case True
    then show ?thesis using assms by (simp add: read_csv_chunks_def)
  next
    case False
    let ?chunks = "map (\<lambda>rs. df\<lparr>rows := rs\<rparr>) (read_rows ?c (rows df))"
    have "int (length ?chunks) = (int (length (rows df)) + chunksize - 1) div chunksize"
    proof -
      have "length ?chunks = (length (rows df) + ?c - 1) div ?c"
        using pos by (simp add: read_rows_length)
      moreover have "int (length (rows df) + ?c - 1) = int (length (rows df)) + chunksize - 1"
        using assms by (simp add: of_nat_diff)
      ultimately show ?thesis using assms by (simp add: zdiv_int)
    qed
    then have "int (length ?chunks) = \<lceil>real (length (rows df)) / real_of_int chunksize\<rceil>"
      using assms by (simp add: ceiling_div_int)
    moreover have "\<forall>c \<in> set ?chunks. columns c = columns df \<and> int (length (rows c)) \<le> chunksize"
      using read_rows_bound [of _ ?c "rows df"] assms by fastforce
    moreover have "concat (map rows ?chunks) = rows df"
    proof -
      have "map rows ?chunks = read_rows ?c (rows df)"
        by (simp add: comp_def)
      then show ?thesis using pos by (simp add: read_rows_concat)
    qed
    ultimately show ?thesis using assms False by (simp add: read_csv_chunks_def)
  qed
qed

text \<open>Three rows in chunks of two.\<close>

theorem chunks_partition_the_rows_witness:
  "(0::int) < 2 \<and>
   (\<exists>chunks. data_chunks 2 three_rows = Inr chunks \<and>
      int (length chunks) = \<lceil>real (length (rows three_rows)) / real_of_int 2\<rceil> \<and>
      (\<forall>c \<in> set chunks. columns c = columns three_rows \<and> int (length (rows c)) \<le> 2) \<and>
      concat (map rows chunks) = rows three_rows) \<and>
   (\<exists>chunks. read_csv_chunks 2 three_rows = Inr chunks \<and>
      int (length chunks) =
        (if rows three_rows = [] then 1
         else \<lceil>real (length (rows three_rows)) / real_of_int 2\<rceil>) \<and>
      (\<forall>c \<in> set chunks. columns c = columns three_rows \<and> int (length (rows c)) \<le> 2) \<and>
      concat (map rows chunks) = rows three_rows)"
  using chunks_partition_the_rows [of 2 three_rows] by simp

subsection \<open>Claim C2\<close>

text \<open>
  Claim C2 says that \<^verbatim>\<open>upload_csv_to_dash\<close> issues exactly one POST with the fixed URL and
  headers, returns the response for a 2xx status and raises for every other status.
  The last part fails: \<^verbatim>\<open>raise_for_status\<close> raises for 4xx and 5xx only, so a response
  with status 304 is returned to the caller.
\<close>

theorem status_304_is_returned:
  "fst (upload_csv_to_dash not_modified_env ''org'' ''key'' ''t'' empty_stream initial_world) =
     Inr \<lparr>status_code = 304, response_text = ''''\<rparr> \<and>
   \<not> (200 \<le> status_code \<lparr>status_code = 304, response_text = ''''\<rparr> \<and>
      status_code \<lparr>status_code = 304, response_text = ''''\<rparr> < 300)"
  by (simp add: upload_csv_eq not_modified_env_def initial_world_def)

text \<open>
  Claim C2 as amended: every call sends exactly one request, a POST to
  \<^verbatim>\<open>https://api.comodash.io/v1/data-input-file\<close> with the five headers and the buffer as
  its body, whatever the outcome (no retry). A transport error propagates. A response
  with a status from 400 to 599 raises \<^verbatim>\<open>HTTPError\<close>; a response with any other status,
  every 2xx status among them, is returned as it is.
\<close>

theorem upload_csv_to_dash_one_post:
  "\<exists>outcome.
     upload_csv_to_dash env dash_orgname dash_api_key dash_table csv_gz_stream w =
       (outcome,
        w\<lparr>requests := requests w @
           [\<lparr>http_method = ''POST'',
             url = ''https://api.comodash.io/v1/data-input-file'',
             headers =
               [(''Content-Type'', ''application/gzip''),
                (''service_client_id'', ''0''),
                (''x-api-key'', dash_api_key),
                (''org-name'', dash_orgname),
                (''table-name'', dash_table)],
             data = csv_gz_stream\<rparr>]\<rparr>) \<and>
     (\<forall>e. server env (requests w)
            (dash_request dash_orgname dash_api_key dash_table csv_gz_stream) = Inl e \<longrightarrow>
          outcome = Inl e) \<and>
     (\<forall>r. server env (requests w)
            (dash_request dash_orgname dash_api_key dash_table csv_gz_stream) = Inr r \<longrightarrow>
          (200 \<le> status_code r \<and> status_code r < 300 \<longrightarrow> outcome = Inr r) \<and>
          (400 \<le> status_code r \<and> status_code r < 600 \<longrightarrow>
             outcome = Inl (HTTPError (status_code r))) \<and>
          (\<not> (400 \<le> status_code r \<and> status_code r < 600) \<longrightarrow> outcome = Inr r))"
  by (auto simp: upload_csv_eq dash_request_def)

text \<open>An accepted upload: the response with status 200 is returned, one request is sent.\<close>

theorem upload_csv_to_dash_one_post_witness:
  "server accepting_env (requests initial_world) (dash_request ''org'' ''key'' ''t'' empty_stream) =
     Inr \<lparr>status_code = 200, response_text = ''ok 0''\<rparr> \<and>
   upload_csv_to_dash accepting_env ''org'' ''key'' ''t'' empty_stream initial_world =
     (Inr \<lparr>status_code = 200, response_text = ''ok 0''\<rparr>,
      initial_world\<lparr>requests := [dash_request ''org'' ''key'' ''t'' empty_stream]\<rparr>)"
  using upload_csv_to_dash_one_post [of accepting_env "''org''" "''key''" "''t''" empty_stream initial_world]
  by (auto simp: accepting_env_def initial_world_def dash_request_def str_nat.simps digit_char_def)

subsection \<open>Claim C3\<close>

text \<open>
  Claim C3: without a dry-run directory, when the upload of a chunk raises, both entry
  points raise that error at once; no later chunk is serialized or uploaded, and what
  the earlier chunks did stays. Stated for a chunk list \<open>earlier @ chunk # later\<close>: if the
  loop over \<open>earlier\<close> ends normally in the world \<open>wk\<close> and the upload of \<open>chunk\<close> from
  there raises \<open>e\<close> and leaves the world \<open>w'\<close>, then the whole call returns \<open>e\<close> and \<open>w'\<close>,
  whatever \<open>later\<close> is. In \<open>w'\<close> the requests are those of \<open>wk\<close> (one per earlier chunk)
  and the failed one, the clock has been read once per chunk up to the failing one, and
  for \<^verbatim>\<open>upload_dataframe\<close> the log holds the records of the earlier responses. (The list of
  responses that \<^verbatim>\<open>read_and_upload_file_to_dash\<close> has collected is local to the call and is
  not returned when it raises.)
\<close>

theorem failed_upload_stops_the_loop:
  "(read_csv_chunks chunksize file = Inr (earlier @ chunk # later) \<and>
    upload_file_chunks env dash_table dash_orgname dash_api_key modify_lambda None 1 []
      earlier w = (Inr texts, wk) \<and>
    call_modify_lambda modify_lambda chunk = Inr m \<and>
    create_gzipped_csv_stream_from_df env m wk = (stream, w1) \<and>
    upload_csv_to_dash env dash_orgname dash_api_key dash_table stream w1 = (Inl e, w') \<longrightarrow>
      read_and_upload_file_to_dash env file dash_table dash_orgname dash_api_key chunksize
        modify_lambda None w = (Inl e, w') \<and>
      requests w' = requests wk @ [dash_request dash_orgname dash_api_key dash_table stream] \<and>
      (\<exists>sent. requests wk = requests w @ sent \<and> length sent = length earlier) \<and>
      ticks w' = ticks w + length earlier + 1 \<and>
      files w' = files w) \<and>
   (prepare_dataframe env dataframe dash_table dtypes include_snapshot w = (Inr addr, w4) \<and>
    data_chunks chunksize (heap w4 ! addr) = Inr (earlier' @ chunk' # later') \<and>
    upload_data_chunks env dash_table dash_orgname dash_api_key None 0 earlier' w4 =
      (Inr u, wk') \<and>
    create_gzipped_csv_stream_from_df env chunk' wk' = (stream', w1') \<and>
    upload_csv_to_dash env dash_orgname dash_api_key dash_table stream' w1' = (Inl e', w'') \<longrightarrow>
      upload_dataframe env dataframe dash_table dash_orgname dash_api_key dtypes chunksize None
        include_snapshot w = (Inl e', w'') \<and>
      requests w'' = requests wk' @ [dash_request dash_orgname dash_api_key dash_table stream'] \<and>
      (\<exists>sent. requests wk' = requests w @ sent \<and> length sent = length earlier') \<and>
      log_records w'' = log_records wk' \<and>
      (\<exists>logged. length logged = length earlier' \<and>
         log_records wk' =
           log_records w @ concat (map (\<lambda>x. map (\<lambda>h. (h, x)) (handlers w4)) logged)) \<and>
      ticks w'' = ticks w + 1 + length earlier' + 1 \<and>
      files w'' = files w)"
proof (rule conjI [OF impI impI])
  assume hyp: "read_csv_chunks chunksize file = Inr (earlier @ chunk # later) \<and>
    upload_file_chunks env dash_table dash_orgname dash_api_key modify_lambda None 1 []
      earlier w = (Inr texts, wk) \<and>
    call_modify_lambda modify_lambda chunk = Inr m \<and>
    create_gzipped_csv_stream_from_df env m wk = (stream, w1) \<and>
    upload_csv_to_dash env dash_orgname dash_api_key dash_table stream w1 = (Inl e, w')"
  then have step: "upload_file_chunks env dash_table dash_orgname dash_api_key modify_lambda None
      (1 + length earlier) texts (chunk # later) wk = (Inl e, w')"
    by (simp add: upload_file_chunks.simps(2))
  have w1: "w1 = wk\<lparr>ticks := Suc (ticks wk)\<rparr>"
    using hyp by (simp add: create_stream_eq)
  have w': "w' = w1\<lparr>requests := requests w1 @
      [dash_request dash_orgname dash_api_key dash_table stream]\<rparr>"
    using hyp upload_csv_world by blast
  from hyp file_loop_live_requests [of env dash_table dash_orgname dash_api_key modify_lambda
      1 "[]" earlier w texts wk]
  obtain sent where sent: "requests wk = requests w @ sent" "length sent = length earlier"
    by blast
  have frame: "files wk = files w" "ticks wk = ticks w + length earlier"
    using hyp file_loop_frame [of env dash_table dash_orgname dash_api_key modify_lambda None
      1 "[]" earlier w "Inr texts" wk] file_loop_ticks [of env dash_table dash_orgname
      dash_api_key modify_lambda None 1 "[]" earlier w texts wk]
    by simp_all
  show "read_and_upload_file_to_dash env file dash_table dash_orgname dash_api_key chunksize
        modify_lambda None w = (Inl e, w') \<and>
      requests w' = requests wk @ [dash_request dash_orgname dash_api_key dash_table stream] \<and>
      (\<exists>sent. requests wk = requests w @ sent \<and> length sent = length earlier) \<and>
      ticks w' = ticks w + length earlier + 1 \<and>
      files w' = files w"
    using hyp step sent frame
    by (simp add: read_and_upload_file_to_dash_def file_loop_append w1 w')
next
  assume hyp: "prepare_dataframe env dataframe dash_table dtypes include_snapshot w = (Inr addr, w4) \<and>
    data_chunks chunksize (heap w4 ! addr) = Inr (earlier' @ chunk' # later') \<and>
    upload_data_chunks env dash_table dash_orgname dash_api_key None 0 earlier' w4 =
      (Inr u, wk') \<and>
    create_gzipped_csv_stream_from_df env chunk' wk' = (stream', w1') \<and>
    upload_csv_to_dash env dash_orgname dash_api_key dash_table stream' w1' = (Inl e', w'')"
  then have step: "upload_data_chunks env dash_table dash_orgname dash_api_key None
      (0 + length earlier') (chunk' # later') wk' = (Inl e', w'')"
    by (simp add: upload_data_chunks.simps(2))
  have w1: "w1' = wk'\<lparr>ticks := Suc (ticks wk')\<rparr>"
    using hyp by (simp add: create_stream_eq)
  have w': "w'' = w1'\<lparr>requests := requests w1' @
      [dash_request dash_orgname dash_api_key dash_table stream']\<rparr>"
    using hyp upload_csv_world by blast
  note prep = prepare_frame [of env dataframe dash_table dtypes include_snapshot w "Inr addr" w4]
  from hyp data_loop_live_requests [of env dash_table dash_orgname dash_api_key 0 earlier' w4 u wk']
  obtain sent logged where sent: "requests wk' = requests w4 @ sent"
    "log_records wk' = log_records w4 @ concat (map (\<lambda>x. map (\<lambda>h. (h, x)) (handlers w4)) logged)"
    "length sent = length earlier'" "length logged = length earlier'"
    by blast
  have frame: "files wk' = files w4" "ticks wk' = ticks w4 + length earlier'"
    using hyp data_loop_frame [of env dash_table dash_orgname dash_api_key None 0 earlier' w4
      "Inr u" wk'] data_loop_ticks [of env dash_table dash_orgname dash_api_key None 0 earlier'
      w4 u wk']
    by simp_all
  have log: "\<exists>logged. length logged = length earlier' \<and>
         log_records wk' =
           log_records w @ concat (map (\<lambda>x. map (\<lambda>h. (h, x)) (handlers w4)) logged)"
    using sent(2,4) prep hyp by auto
  have req: "\<exists>sent. requests wk' = requests w @ sent \<and> length sent = length earlier'"
    using sent(1,3) prep hyp by auto
  show "upload_dataframe env dataframe dash_table dash_orgname dash_api_key dtypes chunksize None
        include_snapshot w = (Inl e', w'') \<and>
      requests w'' = requests wk' @ [dash_request dash_orgname dash_api_key dash_table stream'] \<and>
      (\<exists>sent. requests wk' = requests w @ sent \<and> length sent = length earlier') \<and>
      log_records w'' = log_records wk' \<and>
      (\<exists>logged. length logged = length earlier' \<and>
         log_records wk' =
           log_records w @ concat (map (\<lambda>x. map (\<lambda>h. (h, x)) (handlers w4)) logged)) \<and>
      ticks w'' = ticks w + 1 + length earlier' + 1 \<and>
      files w'' = files w"
    using hyp step frame prep log req
    by (simp add: upload_dataframe_def data_loop_append w1 w')
qed

text \<open>
  Three rows in chunks of one, sent to a server that answers the second request with
  status 500: both entry points raise after two requests, and the third chunk is never
  sent.
\<close>

theorem failed_upload_stops_the_loop_witness:
  "read_csv_chunks 1 three_rows = Inr ([one_row 0] @ one_row 1 # [one_row 2]) \<and>
   upload_file_chunks second_fails_env ''t'' ''org'' ''key'' None None 1 [] [one_row 0]
     one_frame_world =
     (Inr [''ok''],
      one_frame_world\<lparr>ticks := 1,
        requests := [dash_request ''org'' ''key'' ''t'' (stream_of second_fails_env 0 (one_row 0))]\<rparr>) \<and>
   call_modify_lambda None (one_row 1) = Inr (one_row 1) \<and>
   upload_csv_to_dash second_fails_env ''org'' ''key'' ''t''
     (stream_of second_fails_env 1 (one_row 1))
     (one_frame_world\<lparr>ticks := 2,
        requests := [dash_request ''org'' ''key'' ''t'' (stream_of second_fails_env 0 (one_row 0))]\<rparr>) =
     (Inl (HTTPError 500),
      one_frame_world\<lparr>ticks := 2,
        requests := [dash_request ''org'' ''key'' ''t'' (stream_of second_fails_env 0 (one_row 0)),
                     dash_request ''org'' ''key'' ''t'' (stream_of second_fails_env 1 (one_row 1))]\<rparr>) \<and>
   read_and_upload_file_to_dash second_fails_env three_rows ''t'' ''org'' ''key'' 1 None None
     one_frame_world =
     (Inl (HTTPError 500),
      one_frame_world\<lparr>ticks := 2,
        requests := [dash_request ''org'' ''key'' ''t'' (stream_of second_fails_env 0 (one_row 0)),
                     dash_request ''org'' ''key'' ''t'' (stream_of second_fails_env 1 (one_row 1))]\<rparr>) \<and>
   prepare_dataframe second_fails_env 0 ''t'' [] False one_frame_world =
     (Inr 0,
      one_frame_world\<lparr>ticks := 1,
        handlers := [log_file_of second_fails_env ''t'' one_frame_world]\<rparr>) \<and>
   data_chunks 1 three_rows = Inr ([one_row 0] @ one_row 1 # [one_row 2]) \<and>
   fst (upload_data_chunks second_fails_env ''t'' ''org'' ''key'' None 0 [one_row 0]
     (one_frame_world\<lparr>ticks := 1,
        handlers := [log_file_of second_fails_env ''t'' one_frame_world]\<rparr>)) = Inr () \<and>
   fst (upload_dataframe second_fails_env 0 ''t'' ''org'' ''key'' [] 1 None False
     one_frame_world) = Inl (HTTPError 500) \<and>
   length (requests (snd (upload_dataframe second_fails_env 0 ''t'' ''org'' ''key'' [] 1 None
     False one_frame_world))) = 2 \<and>
   log_records (snd (upload_dataframe second_fails_env 0 ''t'' ''org'' ''key'' [] 1 None
     False one_frame_world)) = [(log_file_of second_fails_env ''t'' one_frame_world, ''ok'')]"
proof -
  let ?env = second_fails_env
  let ?r0 = "dash_request ''org'' ''key'' ''t'' (stream_of ?env 0 (one_row 0))"
  let ?s1 = "stream_of ?env 1 (one_row 1)"
  let ?wk = "one_frame_world\<lparr>ticks := 1, requests := [?r0]\<rparr>"
  let ?w1 = "one_frame_world\<lparr>ticks := 2, requests := [?r0]\<rparr>"
  let ?w' = "one_frame_world\<lparr>ticks := 2,
      requests := [?r0, dash_request ''org'' ''key'' ''t'' ?s1]\<rparr>"
  let ?w4 = "one_frame_world\<lparr>ticks := 1, handlers := [log_file_of ?env ''t'' one_frame_world]\<rparr>"
  let ?q0 = "dash_request ''org'' ''key'' ''t'' (stream_of ?env 1 (one_row 0))"
  let ?t2 = "stream_of ?env 2 (one_row 1)"
  let ?vk = "logger_info ''ok'' (?w4\<lparr>ticks := 2, requests := [?q0]\<rparr>)"
  have ok: "can_open ?env p" for p
    by (simp add: second_fails_env_def)
  have srv: "server ?env [] q = Inr \<lparr>status_code = 200, response_text = ''ok''\<rparr>"
    "server ?env [q'] q = Inr \<lparr>status_code = 500, response_text = ''error''\<rparr>" for q q'
    by (simp_all add: second_fails_env_def)
  have reader: "read_csv_chunks 1 three_rows = Inr ([one_row 0] @ one_row 1 # [one_row 2])"
    by (simp add: read_csv_chunks_def three_rows_def one_row_def read_rows.simps)
  have slices: "data_chunks 1 three_rows = Inr ([one_row 0] @ one_row 1 # [one_row 2])"
    by (simp add: data_chunks_def py_range_def range_from.simps row_slice_def py_slice_def
        slice_bound_def Let_def three_rows_def one_row_def)
  have first_file: "upload_file_chunks ?env ''t'' ''org'' ''key'' None None 1 [] [one_row 0]
      one_frame_world = (Inr [''ok''], ?wk)"
    by (simp add: file_loop_live_Cons call_modify_lambda_def Let_def srv one_frame_world_def
        initial_world_def)
  have modify: "call_modify_lambda None (one_row 1) = Inr (one_row 1)"
    by (simp add: call_modify_lambda_def)
  have stream: "create_gzipped_csv_stream_from_df ?env (one_row 1) ?wk = (?s1, ?w1)"
    by (simp add: create_stream_of one_frame_world_def initial_world_def)
  have fails: "upload_csv_to_dash ?env ''org'' ''key'' ''t'' ?s1 ?w1 = (Inl (HTTPError 500), ?w')"
    by (simp add: upload_csv_eq srv one_frame_world_def initial_world_def)
  have fields: "ticks one_frame_world = 0" "handlers one_frame_world = []"
    by (simp_all add: one_frame_world_def initial_world_def)
  have prep: "prepare_dataframe ?env 0 ''t'' [] False one_frame_world = (Inr 0, ?w4)"
    by (simp add: prepare_no_dtypes ok fields)
  have heap4: "heap ?w4 ! 0 = three_rows"
    by (simp add: one_frame_world_def)
  have first_data: "upload_data_chunks ?env ''t'' ''org'' ''key'' None 0 [one_row 0] ?w4 =
      (Inr (), ?vk)"
    by (simp add: data_loop_live_Cons Let_def srv one_frame_world_def initial_world_def
        numeral_2_eq_2)
  have stream': "create_gzipped_csv_stream_from_df ?env (one_row 1) ?vk =
      (?t2, ?vk\<lparr>ticks := 3\<rparr>)"
    by (simp add: create_stream_of logger_info_def one_frame_world_def initial_world_def)
  have fails': "upload_csv_to_dash ?env ''org'' ''key'' ''t'' ?t2 (?vk\<lparr>ticks := 3\<rparr>) =
      (Inl (HTTPError 500),
       ?vk\<lparr>ticks := 3, requests := [?q0, dash_request ''org'' ''key'' ''t'' ?t2]\<rparr>)"
    by (simp add: upload_csv_eq srv logger_info_def one_frame_world_def initial_world_def)
  note inst = failed_upload_stops_the_loop [of 1 three_rows "[one_row 0]" "one_row 1" "[one_row 2]"
      ?env "''t''" "''org''" "''key''" None one_frame_world "[''ok'']" ?wk "one_row 1" ?s1 ?w1
      "HTTPError 500" ?w' 0 "[]" False 0 ?w4 "[one_row 0]" "one_row 1"
      "[one_row 2]" "()" ?vk ?t2 "?vk\<lparr>ticks := 3\<rparr>" "HTTPError 500"
      "?vk\<lparr>ticks := 3, requests := [?q0, dash_request ''org'' ''key'' ''t'' ?t2]\<rparr>"]
  from inst reader first_file modify stream fails prep slices heap4 first_data stream' fails'
  have file_run: "read_and_upload_file_to_dash ?env three_rows ''t'' ''org'' ''key'' 1 None None
      one_frame_world = (Inl (HTTPError 500), ?w')"
    and data_run: "upload_dataframe ?env 0 ''t'' ''org'' ''key'' [] 1 None False one_frame_world =
      (Inl (HTTPError 500),
       ?vk\<lparr>ticks := 3, requests := [?q0, dash_request ''org'' ''key'' ''t'' ?t2]\<rparr>)"
    by simp_all
  show ?thesis
    using reader first_file modify fails file_run prep slices first_data data_run
    by (simp add: logger_info_def one_frame_world_def initial_world_def)
qed

subsection \<open>Claim C4\<close>

text \<open>
  Claim C4: when a dry-run directory is supplied, neither entry point sends a request
  during the call; when none is supplied, neither entry point writes a chunk file
  during the call. This holds for every outcome of the call, an exception included.
  (\<^verbatim>\<open>upload_dataframe\<close> opens its log file in both modes; that is not a chunk file.)
\<close>

theorem dry_run_sends_nothing_and_upload_writes_nothing:
  "requests (snd (read_and_upload_file_to_dash env file dash_table dash_orgname dash_api_key
      chunksize modify_lambda (Some directory) w)) = requests w \<and>
   requests (snd (upload_dataframe env dataframe dash_table dash_orgname dash_api_key dtypes
      chunksize (Some directory) include_snapshot w)) = requests w \<and>
   files (snd (read_and_upload_file_to_dash env file dash_table dash_orgname dash_api_key
      chunksize modify_lambda None w)) = files w \<and>
   files (snd (upload_dataframe env dataframe dash_table dash_orgname dash_api_key dtypes
      chunksize None include_snapshot w)) = files w"
proof -
  have file_part: "(path \<noteq> None \<longrightarrow> requests (snd (read_and_upload_file_to_dash env file dash_table
        dash_orgname dash_api_key chunksize modify_lambda path w)) = requests w) \<and>
      (path = None \<longrightarrow> files (snd (read_and_upload_file_to_dash env file dash_table
        dash_orgname dash_api_key chunksize modify_lambda path w)) = files w)" for path
  proof (cases "read_csv_chunks chunksize file")
    case (Inl e)
    then show ?thesis by (simp add: read_and_upload_file_to_dash_def)
  next
    case (Inr file_reader)
    obtain res w' where run: "upload_file_chunks env dash_table dash_orgname dash_api_key
        modify_lambda path 1 [] file_reader w = (res, w')"
      by (cases "upload_file_chunks env dash_table dash_orgname dash_api_key
        modify_lambda path 1 [] file_reader w") 
    from file_loop_frame [OF run] show ?thesis
      using Inr run by (auto simp: read_and_upload_file_to_dash_def)
  qed
  have data_part: "(path \<noteq> None \<longrightarrow> requests (snd (upload_dataframe env dataframe dash_table
        dash_orgname dash_api_key dtypes chunksize path include_snapshot w)) = requests w) \<and>
      (path = None \<longrightarrow> files (snd (upload_dataframe env dataframe dash_table
        dash_orgname dash_api_key dtypes chunksize path include_snapshot w)) = files w)" for path
  proof -
    obtain r0 w4 where prep: "prepare_dataframe env dataframe dash_table dtypes include_snapshot w
        = (r0, w4)"
      by (cases "prepare_dataframe env dataframe dash_table dtypes include_snapshot w")
    note frame = prepare_frame [OF prep]
    show ?thesis
    proof (cases r0)
      case (Inl e)
      then show ?thesis using prep frame by (simp add: upload_dataframe_def)
    next
      case (Inr dataframe')
      show ?thesis
      proof (cases "data_chunks chunksize (heap w4 ! dataframe')")
        case (Inl e)
        then show ?thesis using prep Inr frame by (simp add: upload_dataframe_def)
      next
        case chunks: (Inr chunks)
        obtain res w' where run: "upload_data_chunks env dash_table dash_orgname dash_api_key
            path 0 chunks w4 = (res, w')"
          by (cases "upload_data_chunks env dash_table dash_orgname dash_api_key
            path 0 chunks w4")
        from data_loop_frame [OF run] show ?thesis
          using prep Inr chunks run frame by (auto simp: upload_dataframe_def)
      qed
    qed
  qed
  from file_part [of "Some directory"] file_part [of None] data_part [of "Some directory"]
    data_part [of None]
  show ?thesis by simp
qed

subsection \<open>Claim C5\<close>

lemma astype_rectangular:
  assumes "astype dtypes df = Inr cast"
  shows "rectangular cast"
  using astype_cells [OF assms] by (simp add: rectangular_def list_all_length)

text \<open>
  What \<^verbatim>\<open>include_snapshot=true\<close> does. The frame that is chunked is the caller's table
  (or, with a coercion map, its cast copy) after the assignment of the snapshot value,
  which is the first clock reading of the call formatted as \<^verbatim>\<open>%Y-%m-%d %H:%M:%S.%f\<close>.
  If the table has no column \<^verbatim>\<open>snapshot_timestamp\<close>, one column is added, as the last
  one, and every row of every chunk ends with the snapshot value; if it has one, the
  assignment fills that column. In both cases every cell under a column labelled
  \<^verbatim>\<open>snapshot_timestamp\<close>, in every row of every chunk, holds the same snapshot value.
\<close>

lemma snapshot_column_is_constant:
  assumes "dataframe < length (heap w)"
    and "rectangular (heap w ! dataframe)"
    and "prepare_dataframe env dataframe dash_table dtypes True w = (Inr addr, w4)"
  shows "\<exists>src.
           (dtypes = [] \<longrightarrow> src = heap w ! dataframe) \<and>
           (dtypes \<noteq> [] \<longrightarrow> astype dtypes (heap w ! dataframe) = Inr src) \<and>
           heap w4 ! addr =
             setitem ''snapshot_timestamp'' (StrCell (strftime_snapshot (clock env (ticks w)))) src \<and>
           (''snapshot_timestamp'' \<notin> set (columns src) \<longrightarrow>
              columns (heap w4 ! addr) = columns src @ [''snapshot_timestamp''] \<and>
              rows (heap w4 ! addr) =
                map (\<lambda>row. row @ [StrCell (strftime_snapshot (clock env (ticks w)))]) (rows src)) \<and>
           (''snapshot_timestamp'' \<in> set (columns src) \<longrightarrow>
              columns (heap w4 ! addr) = columns src \<and>
              length (rows (heap w4 ! addr)) = length (rows src)) \<and>
           (\<forall>chunks. data_chunks chunksize (heap w4 ! addr) = Inr chunks \<longrightarrow>
              (\<forall>c \<in> set chunks. columns c = columns (heap w4 ! addr) \<and>
                 (\<forall>row \<in> set (rows c).
                    (\<forall>(name, v) \<in> set (zip (columns c) row).
                       name = ''snapshot_timestamp'' \<longrightarrow>
                       v = StrCell (strftime_snapshot (clock env (ticks w)))) \<and>
                    (''snapshot_timestamp'' \<notin> set (columns src) \<longrightarrow>
                       row \<noteq> [] \<and>
                       last row = StrCell (strftime_snapshot (clock env (ticks w)))))))"
proof -
  let ?ts = "StrCell (strftime_snapshot (clock env (ticks w)))"
  have opened: "can_open env (log_file_of env dash_table w)"
    using assms(3) by (cases "can_open env (log_file_of env dash_table w)")
      (simp_all add: prepare_cannot_open)
  obtain src where src: "dtypes = [] \<longrightarrow> src = heap w ! dataframe"
    "dtypes \<noteq> [] \<longrightarrow> astype dtypes (heap w ! dataframe) = Inr src"
    and stamped: "heap w4 ! addr = setitem ''snapshot_timestamp'' ?ts src"
  proof (cases "dtypes = []")
    case True
    with assms(1,3) opened have "heap w4 ! addr = setitem ''snapshot_timestamp'' ?ts (heap w ! dataframe)"
      by (auto simp: prepare_no_dtypes snapshot_of_def)
    with True that show ?thesis by simp
  next
    case False
    show ?thesis
    proof (cases "astype dtypes (heap w ! dataframe)")
      case (Inl e)
      with assms(3) opened False show ?thesis by (simp add: prepare_cast_fails)
    next
      case (Inr cast)
      with assms(3) opened False have "heap w4 ! addr = setitem ''snapshot_timestamp'' ?ts cast"
        by (auto simp: prepare_cast snapshot_of_def)
      with False Inr that show ?thesis by simp
    qed
  qed
  have rect: "rectangular src"
    using src assms(2) astype_rectangular by (cases "dtypes = []") auto
  have chunk: "columns c = columns (heap w4 ! addr) \<and>
      (\<forall>row \<in> set (rows c).
         (\<forall>(name, v) \<in> set (zip (columns c) row). name = ''snapshot_timestamp'' \<longrightarrow> v = ?ts) \<and>
         (''snapshot_timestamp'' \<notin> set (columns src) \<longrightarrow> row \<noteq> [] \<and> last row = ?ts))"
    if "data_chunks chunksize (heap w4 ! addr) = Inr chunks" "c \<in> set chunks" for chunks c
  proof -
    from data_chunks_rows [OF that] have cols: "columns c = columns (heap w4 ! addr)"
      and sub: "set (rows c) \<subseteq> set (rows (heap w4 ! addr))"
      by simp_all
    have "(\<forall>(name, v) \<in> set (zip (columns c) row). name = ''snapshot_timestamp'' \<longrightarrow> v = ?ts) \<and>
         (''snapshot_timestamp'' \<notin> set (columns src) \<longrightarrow> row \<noteq> [] \<and> last row = ?ts)"
      if "row \<in> set (rows c)" for row
    proof -
      from that sub stamped have row: "row \<in> set (rows (setitem ''snapshot_timestamp'' ?ts src))"
        by auto
      have "v = ?ts" if "(name, v) \<in> set (zip (columns c) row)" "name = ''snapshot_timestamp''"
        for name v
        using setitem_cells [OF row _ that(2) rect] that(1) cols stamped by simp
      moreover have "row \<noteq> [] \<and> last row = ?ts" if "''snapshot_timestamp'' \<notin> set (columns src)"
        using row setitem_new [OF that, of ?ts] by auto
      ultimately show ?thesis by auto
    qed
    with cols show ?thesis by simp
  qed
  show ?thesis
  proof (intro exI conjI)
    show "dtypes = [] \<longrightarrow> src = heap w ! dataframe" by (rule src)
    show "dtypes \<noteq> [] \<longrightarrow> astype dtypes (heap w ! dataframe) = Inr src" by (rule src)
    show "heap w4 ! addr = setitem ''snapshot_timestamp'' ?ts src" by (rule stamped)
    show "''snapshot_timestamp'' \<notin> set (columns src) \<longrightarrow>
        columns (heap w4 ! addr) = columns src @ [''snapshot_timestamp''] \<and>
        rows (heap w4 ! addr) = map (\<lambda>row. row @ [?ts]) (rows src)"
      using stamped setitem_new [of "''snapshot_timestamp''" src ?ts] by simp
    show "''snapshot_timestamp'' \<in> set (columns src) \<longrightarrow>
        columns (heap w4 ! addr) = columns src \<and>
        length (rows (heap w4 ! addr)) = length (rows src)"
      using stamped setitem_old [of "''snapshot_timestamp''" src ?ts] by simp
    show "\<forall>chunks. data_chunks chunksize (heap w4 ! addr) = Inr chunks \<longrightarrow>
        (\<forall>c \<in> set chunks. columns c = columns (heap w4 ! addr) \<and>
           (\<forall>row \<in> set (rows c).
              (\<forall>(name, v) \<in> set (zip (columns c) row).
                 name = ''snapshot_timestamp'' \<longrightarrow> v = ?ts) \<and>
              (''snapshot_timestamp'' \<notin> set (columns src) \<longrightarrow> row \<noteq> [] \<and> last row = ?ts)))"
      using chunk by blast
  qed
qed

text \<open>
  A table with the columns \<^verbatim>\<open>a\<close> and \<^verbatim>\<open>b\<close> gets the third column, with the same value
  in its three rows.
\<close>

lemma snapshot_column_on_three_rows:
  "0 < length (heap one_frame_world) \<and>
   rectangular (heap one_frame_world ! 0) \<and>
   prepare_dataframe accepting_env 0 ''t'' [] True one_frame_world =
     (Inr 0, snd (prepare_dataframe accepting_env 0 ''t'' [] True one_frame_world)) \<and>
   heap (snd (prepare_dataframe accepting_env 0 ''t'' [] True one_frame_world)) ! 0 =
     \<lparr>columns = [''a'', ''b'', ''snapshot_timestamp''],
      rows = [[StrCell ''1'', StrCell ''x'', StrCell ''2023-11-14 22:13:20.000005''],
              [StrCell ''2'', StrCell ''y'', StrCell ''2023-11-14 22:13:20.000005''],
              [StrCell ''3'', StrCell ''z'', StrCell ''2023-11-14 22:13:20.000005'']]\<rparr>"
proof -
  have ok: "can_open accepting_env p" for p
    by (simp add: accepting_env_def)
  have fields: "ticks one_frame_world = 0" "heap one_frame_world = [three_rows]"
    by (simp_all add: one_frame_world_def initial_world_def)
  have "replicate 5 CHR ''0'' = ''00000''"
    by (simp add: numeral_eq_Suc)
  then have stamp: "snapshot_of accepting_env one_frame_world =
      StrCell ''2023-11-14 22:13:20.000005''"
    by (simp add: snapshot_of_def strftime_snapshot_def accepting_env_def example_clock_def
        fields zero_pad_def str_nat.simps digit_char_def)
  have rect: "rectangular (heap one_frame_world ! 0)"
    by (simp add: fields rectangular_def three_rows_def)
  have prep: "prepare_dataframe accepting_env 0 ''t'' [] True one_frame_world =
     (Inr 0, snd (prepare_dataframe accepting_env 0 ''t'' [] True one_frame_world))"
    by (simp add: prepare_no_dtypes ok)
  have live: "0 < length (heap one_frame_world)"
    by (simp add: fields)
  from snapshot_column_is_constant [OF live rect prep] rect live prep show ?thesis
    by (simp add: prepare_no_dtypes ok stamp fields setitem_def three_rows_def)
qed

text \<open>
  Claim C5: \<^verbatim>\<open>include_snapshot=true\<close> adds exactly one column, which holds the formatted
  time of the start of the call in every row of every chunk. The docstring of
  \<^verbatim>\<open>include_snapshot\<close> promises the same: an additional column \<^verbatim>\<open>snapshot_timestamp\<close> will
  be added to the frame. The code assigns \<^verbatim>\<open>dataframe['snapshot_timestamp']\<close>, and for a
  table that already has a column of that name the assignment adds nothing: it replaces
  the values of the caller's column. The table below has the columns \<^verbatim>\<open>id\<close> and
  \<^verbatim>\<open>snapshot_timestamp\<close> and one row, with the value \<^verbatim>\<open>old\<close> in the second column. The
  call returns, the table still has two columns, \<^verbatim>\<open>old\<close> is gone from the caller's
  object, and the chunk file holds two columns.
\<close>

theorem stamped_table_gets_no_new_column:
  "heap stamped_world ! 0 =
     \<lparr>columns = [''id'', ''snapshot_timestamp''], rows = [[IntCell 1, StrCell ''old'']]\<rparr> \<and>
   fst (upload_dataframe accepting_env 0 ''t'' ''org'' ''key'' [] 2 (Some ''out'') True
          stamped_world) = Inr () \<and>
   heap (snd (upload_dataframe accepting_env 0 ''t'' ''org'' ''key'' [] 2 (Some ''out'') True
          stamped_world)) ! 0 =
     \<lparr>columns = [''id'', ''snapshot_timestamp''],
      rows = [[IntCell 1, StrCell ''2023-11-14 22:13:20.000005'']]\<rparr> \<and>
   map (payload \<circ> snd) (files (snd (upload_dataframe accepting_env 0 ''t'' ''org'' ''key'' [] 2
          (Some ''out'') True stamped_world))) =
     [''\"id\",\"snapshot_timestamp\"\<newline>1,\"2023-11-14 22:13:20.000005\"\<newline>'']"
proof -
  let ?run = "upload_dataframe accepting_env 0 ''t'' ''org'' ''key'' [] 2 (Some ''out'') True
      stamped_world"
  let ?after = "\<lparr>columns = [''id'', ''snapshot_timestamp''],
      rows = [[IntCell 1, StrCell ''2023-11-14 22:13:20.000005'']]\<rparr>"
  have ok: "can_open accepting_env p" for p
    by (simp add: accepting_env_def)
  have fields: "ticks stamped_world = 0" "heap stamped_world = [stamped]"
    "files stamped_world = []"
    by (simp_all add: stamped_world_def initial_world_def)
  have "replicate 5 CHR ''0'' = ''00000''"
    by (simp add: numeral_eq_Suc)
  then have stamp: "snapshot_of accepting_env stamped_world = StrCell ''2023-11-14 22:13:20.000005''"
    by (simp add: snapshot_of_def strftime_snapshot_def accepting_env_def example_clock_def
        fields zero_pad_def str_nat.simps digit_char_def)
  have assigned: "setitem ''snapshot_timestamp'' (StrCell ''2023-11-14 22:13:20.000005'') stamped
      = ?after"
    by (simp add: setitem_def stamped_def)
  have prep: "prepare_dataframe accepting_env 0 ''t'' [] True stamped_world =
      (Inr 0,
       stamped_world\<lparr>ticks := 1, handlers := handlers stamped_world @
          [log_file_of accepting_env ''t'' stamped_world], heap := [?after]\<rparr>)"
    by (simp add: prepare_no_dtypes ok stamp fields assigned)
  have chunks: "data_chunks 2 ?after = Inr [?after]"
    by (simp add: data_chunks_def py_range_def range_from.simps row_slice_def py_slice_def
        slice_bound_def Let_def)
  have csv: "to_csv ?after =
      ''\"id\",\"snapshot_timestamp\"\<newline>1,\"2023-11-14 22:13:20.000005\"\<newline>''"
    by (simp add: to_csv_def writerow_def quote_field_def str_int_def str_nat.simps
        digit_char_def)
  have run: "?run =
      (Inr (),
       stamped_world\<lparr>ticks := 2, handlers := handlers stamped_world @
          [log_file_of accepting_env ''t'' stamped_world], heap := [?after],
          files := [(chunk_path ''out'' ''t'' 0, stream_of accepting_env 1 ?after)]\<rparr>)"
    by (simp add: upload_dataframe_def prep chunks data_loop_dry_Cons ok fields)
  show ?thesis
    by (simp add: run fields stamped_def stream_of_def csv)
qed

subsection \<open>Claim C6\<close>

text \<open>
  Claim C6 says that \<^verbatim>\<open>create_gzipped_csv_stream_from_df\<close> returns a gzip buffer whose
  content is the CSV text of the table (header, no index, non-numeric fields quoted)
  and that two calls on identical input yield identical buffers. The last part fails:
  the gzip header carries the time of the call, so the same table serialized twice, one
  second apart, gives two different buffers with the same content.
\<close>

theorem same_table_twice_gives_two_buffers:
  "fst (create_gzipped_csv_stream_from_df accepting_env three_rows initial_world) \<noteq>
   fst (create_gzipped_csv_stream_from_df accepting_env three_rows
          (snd (create_gzipped_csv_stream_from_df accepting_env three_rows initial_world))) \<and>
   gzip_decompress (fst (create_gzipped_csv_stream_from_df accepting_env three_rows initial_world)) =
   gzip_decompress (fst (create_gzipped_csv_stream_from_df accepting_env three_rows
          (snd (create_gzipped_csv_stream_from_df accepting_env three_rows initial_world))))"
  by (simp add: create_stream_eq accepting_env_def example_clock_def initial_world_def
      gzip_decompress_def)

text \<open>
  Claim C6 as amended: the function returns a gzip buffer and changes nothing but the
  number of clock readings (no request, no file, no log record, no frame is touched).
  The decompressed content depends on the table alone: it is the header record with
  the column labels followed by one record per row and nothing else (no index column),
  where every string field, the labels included, stands between double quotes and
  every integer field is written without quotes. Read back by the \<^verbatim>\<open>csv\<close> reader of
  this dialect, the content gives the labels and the rows of the table, an unquoted
  field as an integer and a quoted one as a string. The buffer also carries the clock
  second of the call in its header, so two calls on the same table yield the same
  buffer exactly when they read the same clock second.
\<close>

theorem gzipped_csv_stream_content:
  "create_gzipped_csv_stream_from_df env df w =
     (gzip_compress (epoch (clock env (ticks w))) (to_csv df), w\<lparr>ticks := Suc (ticks w)\<rparr>) \<and>
   gzip_decompress (fst (create_gzipped_csv_stream_from_df env df w)) =
     concat (map writerow (map StrCell (columns df) # rows df)) \<and>
   read_csv_text (gzip_decompress (fst (create_gzipped_csv_stream_from_df env df w))) = Some df \<and>
   writerow cells = join_fields (map write_field cells) @ [CHR 0x0A] \<and>
   write_field (StrCell s) = quote_field s \<and>
   hd (quote_field s) = CHR 0x22 \<and> last (quote_field s) = CHR 0x22 \<and>
   2 \<le> length (quote_field s) \<and>
   write_field (IntCell i) = str_int i \<and>
   str_int i \<noteq> [] \<and> CHR 0x22 \<notin> set (str_int i) \<and> CHR '','' \<notin> set (str_int i) \<and>
   (fst (create_gzipped_csv_stream_from_df env df w) =
      fst (create_gzipped_csv_stream_from_df env' df w') \<longleftrightarrow>
    epoch (clock env (ticks w)) = epoch (clock env' (ticks w')))"
  using quote_field_ends [of s] str_int_unquoted [of i] read_csv_text_to_csv [of df]
  by (simp add: create_stream_eq gzip_compress_def gzip_decompress_def to_csv_def writerow_def)

text \<open>The table \<open>three_rows\<close> serialized at the first reading of the example clock.\<close>

theorem gzipped_csv_stream_content_witness:
  "create_gzipped_csv_stream_from_df accepting_env three_rows initial_world =
     (\<lparr>mtime = 1700000000,
       payload = ''\"a\",\"b\"\<newline>\"1\",\"x\"\<newline>\"2\",\"y\"\<newline>\"3\",\"z\"\<newline>''\<rparr>,
      initial_world\<lparr>ticks := 1\<rparr>)"
  using gzipped_csv_stream_content [of accepting_env three_rows initial_world]
  by (simp add: gzip_compress_def accepting_env_def example_clock_def initial_world_def
      to_csv_def writerow_def three_rows_def quote_field_def)

subsection \<open>Claim C7\<close>

lemma join_plain:
  assumes "directory \<noteq> []" "last directory \<noteq> CHR ''/''" "\<not> (name \<noteq> [] \<and> hd name = CHR ''/'')"
  shows "join directory (name @ CHR ''.'' # rest) = directory @ ''/'' @ name @ CHR ''.'' # rest"
proof (cases name)
  case Nil
  then show ?thesis using assms by (simp add: join_def)
next
  case (Cons c cs)
  then show ?thesis using assms by (simp add: join_def)
qed

text \<open>
  Claim C7: in dry-run mode the chunk at 1-based position \<open>k\<close> is written to the file
  \<^verbatim>\<open><directory>/<table>.<index>.csv.gz\<close>, where the index is \<open>k\<close> for
  \<^verbatim>\<open>read_and_upload_file_to_dash\<close> and \<open>k - 1\<close> for \<^verbatim>\<open>upload_dataframe\<close>; the files are
  written in the order of the chunks, and the file of a chunk holds that chunk. The path
  is \<^verbatim>\<open>os.path.join\<close> of the directory and the file name, which is the directory, a
  slash and the file name for a directory that does not end in a slash and a table name
  that does not start with one. The statement is about calls that return.
\<close>

theorem dry_run_chunk_files:
  "(read_and_upload_file_to_dash env file dash_table dash_orgname dash_api_key chunksize
      modify_lambda (Some directory) w = (Inr texts, w') \<longrightarrow>
    (\<exists>chunks new.
       read_csv_chunks chunksize file = Inr chunks \<and>
       files w' = files w @ new \<and> length new = length chunks \<and>
       (\<forall>k. 1 \<le> k \<and> k \<le> length chunks \<longrightarrow>
          fst (new ! (k - 1)) = join directory (dash_table @ ''.'' @ str_nat k @ ''.csv.gz'') \<and>
          (\<exists>m. call_modify_lambda modify_lambda (chunks ! (k - 1)) = Inr m \<and>
               gzip_decompress (snd (new ! (k - 1))) = to_csv m)))) \<and>
   (upload_dataframe env dataframe dash_table dash_orgname dash_api_key dtypes chunksize
      (Some directory) include_snapshot w = (Inr u, w'') \<longrightarrow>
    (\<exists>addr w4 chunks new.
       prepare_dataframe env dataframe dash_table dtypes include_snapshot w = (Inr addr, w4) \<and>
       data_chunks chunksize (heap w4 ! addr) = Inr chunks \<and>
       files w'' = files w @ new \<and> length new = length chunks \<and>
       (\<forall>k. 1 \<le> k \<and> k \<le> length chunks \<longrightarrow>
          fst (new ! (k - 1)) =
            join directory (dash_table @ ''.'' @ str_nat (k - 1) @ ''.csv.gz'') \<and>
          gzip_decompress (snd (new ! (k - 1))) = to_csv (chunks ! (k - 1))))) \<and>
   (directory \<noteq> [] \<and> last directory \<noteq> CHR ''/'' \<and>
    \<not> (dash_table \<noteq> [] \<and> hd dash_table = CHR ''/'') \<longrightarrow>
    (\<forall>i. join directory (dash_table @ ''.'' @ str_nat i @ ''.csv.gz'') =
         directory @ ''/'' @ dash_table @ ''.'' @ str_nat i @ ''.csv.gz''))"
proof (intro conjI impI)
  assume run: "read_and_upload_file_to_dash env file dash_table dash_orgname dash_api_key
      chunksize modify_lambda (Some directory) w = (Inr texts, w')"
  then obtain chunks where chunks: "read_csv_chunks chunksize file = Inr chunks"
    and loop: "upload_file_chunks env dash_table dash_orgname dash_api_key modify_lambda
                (Some directory) 1 [] chunks w = (Inr texts, w')"
    by (auto simp: read_and_upload_file_to_dash_def split: sum.splits)
  from file_loop_dry_files [OF loop] obtain new where new:
    "files w' = files w @ new" "length new = length chunks"
    "\<forall>j < length chunks. \<exists>m. call_modify_lambda modify_lambda (chunks ! j) = Inr m \<and>
         new ! j = (chunk_path directory dash_table (1 + j), stream_of env (ticks w + j) m)"
    by blast
  have "\<forall>k. 1 \<le> k \<and> k \<le> length chunks \<longrightarrow>
          fst (new ! (k - 1)) = join directory (dash_table @ ''.'' @ str_nat k @ ''.csv.gz'') \<and>
          (\<exists>m. call_modify_lambda modify_lambda (chunks ! (k - 1)) = Inr m \<and>
               gzip_decompress (snd (new ! (k - 1))) = to_csv m)"
  proof (intro allI impI)
    fix k assume k: "1 \<le> k \<and> k \<le> length chunks"
    then have "k - 1 < length chunks" and "1 + (k - 1) = k" by auto
    with new(3) [rule_format, of "k - 1"] show
      "fst (new ! (k - 1)) = join directory (dash_table @ ''.'' @ str_nat k @ ''.csv.gz'') \<and>
       (\<exists>m. call_modify_lambda modify_lambda (chunks ! (k - 1)) = Inr m \<and>
            gzip_decompress (snd (new ! (k - 1))) = to_csv m)"
      by (auto simp: chunk_path_def stream_of_def gzip_decompress_def)
  qed
  with chunks new(1,2) show "\<exists>chunks new.
       read_csv_chunks chunksize file = Inr chunks \<and>
       files w' = files w @ new \<and> length new = length chunks \<and>
       (\<forall>k. 1 \<le> k \<and> k \<le> length chunks \<longrightarrow>
          fst (new ! (k - 1)) = join directory (dash_table @ ''.'' @ str_nat k @ ''.csv.gz'') \<and>
          (\<exists>m. call_modify_lambda modify_lambda (chunks ! (k - 1)) = Inr m \<and>
               gzip_decompress (snd (new ! (k - 1))) = to_csv m))"
    by blast
next
  assume run: "upload_dataframe env dataframe dash_table dash_orgname dash_api_key dtypes
      chunksize (Some directory) include_snapshot w = (Inr u, w'')"
  then obtain addr w4 chunks where
    prep: "prepare_dataframe env dataframe dash_table dtypes include_snapshot w = (Inr addr, w4)"
    and chunks: "data_chunks chunksize (heap w4 ! addr) = Inr chunks"
    and loop: "upload_data_chunks env dash_table dash_orgname dash_api_key (Some directory) 0
                chunks w4 = (Inr u, w'')"
    by (auto simp: upload_dataframe_def split: sum.splits prod.splits)
  from data_loop_dry_files [OF loop] obtain new where new:
    "files w'' = files w4 @ new" "length new = length chunks"
    "\<forall>j < length chunks.
       new ! j = (chunk_path directory dash_table (0 + j), stream_of env (ticks w4 + j) (chunks ! j))"
    by blast
  have "\<forall>k. 1 \<le> k \<and> k \<le> length chunks \<longrightarrow>
          fst (new ! (k - 1)) =
            join directory (dash_table @ ''.'' @ str_nat (k - 1) @ ''.csv.gz'') \<and>
          gzip_decompress (snd (new ! (k - 1))) = to_csv (chunks ! (k - 1))"
  proof (intro allI impI)
    fix k assume k: "1 \<le> k \<and> k \<le> length chunks"
    then have "k - 1 < length chunks" by auto
    with new(3) [rule_format, of "k - 1"] show
      "fst (new ! (k - 1)) =
         join directory (dash_table @ ''.'' @ str_nat (k - 1) @ ''.csv.gz'') \<and>
       gzip_decompress (snd (new ! (k - 1))) = to_csv (chunks ! (k - 1))"
      by (simp add: chunk_path_def stream_of_def gzip_decompress_def)
  qed
  moreover have "files w'' = files w @ new"
    using new(1) prepare_frame [OF prep] by simp
  ultimately show "\<exists>addr w4 chunks new.
       prepare_dataframe env dataframe dash_table dtypes include_snapshot w = (Inr addr, w4) \<and>
       data_chunks chunksize (heap w4 ! addr) = Inr chunks \<and>
       files w'' = files w @ new \<and> length new = length chunks \<and>
       (\<forall>k. 1 \<le> k \<and> k \<le> length chunks \<longrightarrow>
          fst (new ! (k - 1)) =
            join directory (dash_table @ ''.'' @ str_nat (k - 1) @ ''.csv.gz'') \<and>
          gzip_decompress (snd (new ! (k - 1))) = to_csv (chunks ! (k - 1)))"
    using prep chunks new(2) by blast
next
  assume "directory \<noteq> [] \<and> last directory \<noteq> CHR ''/'' \<and>
    \<not> (dash_table \<noteq> [] \<and> hd dash_table = CHR ''/'')"
  then show "\<forall>i. join directory (dash_table @ ''.'' @ str_nat i @ ''.csv.gz'') =
         directory @ ''/'' @ dash_table @ ''.'' @ str_nat i @ ''.csv.gz''"
    using join_plain [of directory dash_table] by simp
qed

text \<open>
  Three rows in chunks of two, written to the directory \<^verbatim>\<open>out\<close> by both entry points:
  the files are numbered 1 and 2 by the first, 0 and 1 by the second.
\<close>

theorem dry_run_chunk_files_witness:
  "read_and_upload_file_to_dash accepting_env three_rows ''t'' ''org'' ''key'' 2 None
     (Some ''out'') initial_world =
     (Inr [], snd (read_and_upload_file_to_dash accepting_env three_rows ''t'' ''org'' ''key'' 2
                     None (Some ''out'') initial_world)) \<and>
   upload_dataframe accepting_env 0 ''t'' ''org'' ''key'' [] 2 (Some ''out'') False
     one_frame_world =
     (Inr (), snd (upload_dataframe accepting_env 0 ''t'' ''org'' ''key'' [] 2 (Some ''out'')
                     False one_frame_world)) \<and>
   ''out'' \<noteq> [] \<and> last ''out'' \<noteq> CHR ''/'' \<and> \<not> (''t'' \<noteq> [] \<and> hd ''t'' = CHR ''/'') \<and>
   map fst (files (snd (read_and_upload_file_to_dash accepting_env three_rows ''t'' ''org''
     ''key'' 2 None (Some ''out'') initial_world))) = [''out/t.1.csv.gz'', ''out/t.2.csv.gz''] \<and>
   map fst (files (snd (upload_dataframe accepting_env 0 ''t'' ''org'' ''key'' [] 2
     (Some ''out'') False one_frame_world))) = [''out/t.0.csv.gz'', ''out/t.1.csv.gz'']"
proof -
  have ok: "can_open accepting_env p" for p
    by (simp add: accepting_env_def)
  have run1: "read_and_upload_file_to_dash accepting_env three_rows ''t'' ''org'' ''key'' 2 None
      (Some ''out'') initial_world =
      (Inr [],
       initial_world\<lparr>ticks := 2,
         files := [(''out/t.1.csv.gz'', stream_of accepting_env 0 (three_rows\<lparr>rows := take 2 (rows three_rows)\<rparr>)),
                   (''out/t.2.csv.gz'', stream_of accepting_env 1 (three_rows\<lparr>rows := drop 2 (rows three_rows)\<rparr>))]\<rparr>)"
    by (simp add: read_and_upload_file_to_dash_def read_csv_chunks_def three_rows_def
        read_rows.simps file_loop_dry_Cons call_modify_lambda_def ok chunk_path_def join_def
        initial_world_def str_nat.simps digit_char_def)
  have run2: "upload_dataframe accepting_env 0 ''t'' ''org'' ''key'' [] 2 (Some ''out'') False
      one_frame_world =
      (Inr (),
       one_frame_world\<lparr>ticks := 3,
         handlers := [log_file_of accepting_env ''t'' one_frame_world],
         files := [(''out/t.0.csv.gz'', stream_of accepting_env 1 (three_rows\<lparr>rows := take 2 (rows three_rows)\<rparr>)),
                   (''out/t.1.csv.gz'', stream_of accepting_env 2 (three_rows\<lparr>rows := drop 2 (rows three_rows)\<rparr>))]\<rparr>)"
    by (simp add: upload_dataframe_def prepare_no_dtypes ok data_chunks_def py_range_def
        range_from.simps row_slice_def py_slice_def slice_bound_def Let_def
        data_loop_dry_Cons chunk_path_def join_def one_frame_world_def three_rows_def
        initial_world_def str_nat.simps digit_char_def numeral_2_eq_2)
  from dry_run_chunk_files [of accepting_env three_rows "''t''" "''org''" "''key''" 2 None
      "''out''" initial_world "[]" _ 0 "[]" False "()" _]
  show ?thesis
    by (simp add: run1 run2)
qed

subsection \<open>Claim C8\<close>

text \<open>
  Two casts to \<^verbatim>\<open>"int"\<close> that do not raise. The column that holds \<open>2\<^sup>6\<^sup>3\<close> is stored as
  \<^verbatim>\<open>uint64\<close> and wraps around. The string of the Arabic-Indic digits one and two
  (\<^verbatim>\<open>U+0661 U+0662\<close>) is read by \<^verbatim>\<open>int\<close> as twelve.
\<close>

lemma unsigned_column_wraps_around:
  "astype [(''a'', DInt)] \<lparr>columns = [''a''], rows = [[IntCell (2 ^ 63)]]\<rparr> =
     Inr \<lparr>columns = [''a''], rows = [[IntCell (- (2 ^ 63))]]\<rparr>"
  by (simp add: astype_def enumerate_eq_zip cast_column_def column_values_def infer_storage_def
      wrap64_def)

lemma signed_and_large_column_overflows:
  "astype [(''a'', DInt)] \<lparr>columns = [''a''], rows = [[IntCell (2 ^ 63)], [IntCell (- 1)]]\<rparr> =
     Inl OverflowError"
  by (simp add: astype_def enumerate_eq_zip cast_column_def column_values_def infer_storage_def
      int64_def numeral_2_eq_2)

lemma unicode_digits_are_read:
  "py_int [CHR 0xD9, CHR 0xA1, CHR 0xD9, CHR 0xA2] = Inr 12"
  by (simp add: py_int_def continuation_def unicode_space_def unicode_decimal_def
      decimal_zeros_def digit_char_def long_from_string_def strip_def is_space_def
      digit_value_def Let_def)

text \<open>
  Claim C8: with a non-empty coercion map, \<^verbatim>\<open>upload_dataframe\<close> casts the named columns
  before it adds the snapshot column and before it cuts the chunks, and it raises at
  once when a value cannot be cast. Once the log file is open: if the cast raises, the
  call raises the same error and has only read the clock and opened the log file; if
  the cast returns, the frame that is stamped, chunked and serialized is the cast copy,
  in which every cell of a named column is the cast of the caller's cell, under the
  type its column is stored as, and every other cell is the caller's. A cell that
  cannot be cast makes the call raise with no request sent and no chunk file written.
  In the example of the claim, the column \<^verbatim>\<open>a\<close> with the strings \<^verbatim>\<open>1\<close> and \<^verbatim>\<open>2\<close> is
  written as the numbers 1 and 2 without quotes, while the string column \<^verbatim>\<open>b\<close> stays
  quoted.
\<close>

theorem casts_before_snapshot_and_chunks:
  assumes "dtypes \<noteq> []"
    and "can_open env (log_file_of env dash_table w)"
  shows "(\<forall>e. astype dtypes (heap w ! dataframe) = Inl e \<longrightarrow>
            upload_dataframe env dataframe dash_table dash_orgname dash_api_key dtypes chunksize
              path_to_output_for_dryrun include_snapshot w =
              (Inl e, w\<lparr>ticks := Suc (ticks w),
                        handlers := handlers w @ [log_file_of env dash_table w]\<rparr>)) \<and>
         (\<forall>cast. astype dtypes (heap w ! dataframe) = Inr cast \<longrightarrow>
            (\<exists>w4. prepare_dataframe env dataframe dash_table dtypes include_snapshot w =
                     (Inr (length (heap w)), w4) \<and>
                   heap w4 = heap w @
                     [if include_snapshot
                      then setitem ''snapshot_timestamp''
                             (StrCell (strftime_snapshot (clock env (ticks w)))) cast
                      else cast] \<and>
                   upload_dataframe env dataframe dash_table dash_orgname dash_api_key dtypes
                     chunksize path_to_output_for_dryrun include_snapshot w =
                     (case data_chunks chunksize
                             (if include_snapshot
                              then setitem ''snapshot_timestamp''
                                     (StrCell (strftime_snapshot (clock env (ticks w)))) cast
                              else cast) of
                        Inl e \<Rightarrow> (Inl e, w4)
                      | Inr chunks \<Rightarrow>
                          upload_data_chunks env dash_table dash_orgname dash_api_key
                            path_to_output_for_dryrun 0 chunks w4)) \<and>
            columns cast = columns (heap w ! dataframe) \<and>
            length (rows cast) = length (rows (heap w ! dataframe)) \<and>
            (\<forall>i < length (rows (heap w ! dataframe)).
               \<forall>j < length (columns (heap w ! dataframe)).
                 case map_of dtypes (columns (heap w ! dataframe) ! j) of
                   None \<Rightarrow> rows cast ! i ! j = rows (heap w ! dataframe) ! i ! j
                 | Some ty \<Rightarrow>
                     cast_cell (infer_storage (column_values (heap w ! dataframe) j)) ty
                       (rows (heap w ! dataframe) ! i ! j) = Inr (rows cast ! i ! j))) \<and>
         (\<forall>i j ty. i < length (rows (heap w ! dataframe)) \<and>
                   j < length (columns (heap w ! dataframe)) \<and>
                   map_of dtypes (columns (heap w ! dataframe) ! j) = Some ty \<and>
                   isl (cast_cell (infer_storage (column_values (heap w ! dataframe) j)) ty
                       (rows (heap w ! dataframe) ! i ! j)) \<longrightarrow>
            isl (fst (upload_dataframe env dataframe dash_table dash_orgname dash_api_key dtypes
                        chunksize path_to_output_for_dryrun include_snapshot w)) \<and>
            requests (snd (upload_dataframe env dataframe dash_table dash_orgname dash_api_key
                        dtypes chunksize path_to_output_for_dryrun include_snapshot w)) =
              requests w \<and>
            files (snd (upload_dataframe env dataframe dash_table dash_orgname dash_api_key
                        dtypes chunksize path_to_output_for_dryrun include_snapshot w)) =
              files w) \<and>
         map (payload \<circ> snd)
           (files (snd (upload_dataframe accepting_env 0 ''t'' ''org'' ''key'' [(''a'', DInt)]
                          30000 (Some ''out'') False two_strings_world))) =
           [''\"a\",\"b\"\<newline>1,\"x\"\<newline>2,\"y\"\<newline>'']"
proof (intro conjI allI impI)
  fix e assume "astype dtypes (heap w ! dataframe) = Inl e"
  then show "upload_dataframe env dataframe dash_table dash_orgname dash_api_key dtypes chunksize
      path_to_output_for_dryrun include_snapshot w =
      (Inl e, w\<lparr>ticks := Suc (ticks w), handlers := handlers w @ [log_file_of env dash_table w]\<rparr>)"
    using assms by (simp add: upload_dataframe_def prepare_cast_fails)
next
  fix cast assume cast: "astype dtypes (heap w ! dataframe) = Inr cast"
  let ?new = "if include_snapshot
      then setitem ''snapshot_timestamp'' (StrCell (strftime_snapshot (clock env (ticks w)))) cast
      else cast"
  let ?w4 = "w\<lparr>ticks := Suc (ticks w), handlers := handlers w @ [log_file_of env dash_table w],
      heap := heap w @ [?new]\<rparr>"
  have prep: "prepare_dataframe env dataframe dash_table dtypes include_snapshot w =
      (Inr (length (heap w)), ?w4)"
    using assms cast by (simp add: prepare_cast snapshot_of_def)
  then show "\<exists>w4. prepare_dataframe env dataframe dash_table dtypes include_snapshot w =
        (Inr (length (heap w)), w4) \<and>
      heap w4 = heap w @ [?new] \<and>
      upload_dataframe env dataframe dash_table dash_orgname dash_api_key dtypes
        chunksize path_to_output_for_dryrun include_snapshot w =
        (case data_chunks chunksize ?new of
           Inl e \<Rightarrow> (Inl e, w4)
         | Inr chunks \<Rightarrow>
             upload_data_chunks env dash_table dash_orgname dash_api_key
               path_to_output_for_dryrun 0 chunks w4)"
    by (intro exI [of _ ?w4]) (simp add: upload_dataframe_def)
  from astype_cells [OF cast]
  show "columns cast = columns (heap w ! dataframe)"
    and "length (rows cast) = length (rows (heap w ! dataframe))"
    by simp_all
  fix i j assume "i < length (rows (heap w ! dataframe))" "j < length (columns (heap w ! dataframe))"
  with astype_cells [OF cast]
  show "case map_of dtypes (columns (heap w ! dataframe) ! j) of
          None \<Rightarrow> rows cast ! i ! j = rows (heap w ! dataframe) ! i ! j
        | Some ty \<Rightarrow> cast_cell (infer_storage (column_values (heap w ! dataframe) j)) ty
                       (rows (heap w ! dataframe) ! i ! j) = Inr (rows cast ! i ! j)"
    by simp
next
  fix i j ty
  assume bad: "i < length (rows (heap w ! dataframe)) \<and>
      j < length (columns (heap w ! dataframe)) \<and>
      map_of dtypes (columns (heap w ! dataframe) ! j) = Some ty \<and>
      isl (cast_cell (infer_storage (column_values (heap w ! dataframe) j)) ty
                       (rows (heap w ! dataframe) ! i ! j))"
  then have "isl (astype dtypes (heap w ! dataframe))"
    using astype_fails [of i "heap w ! dataframe" j dtypes ty] by simp
  then obtain e where "astype dtypes (heap w ! dataframe) = Inl e"
    by (cases "astype dtypes (heap w ! dataframe)") simp_all
  then have run: "upload_dataframe env dataframe dash_table dash_orgname dash_api_key dtypes
      chunksize path_to_output_for_dryrun include_snapshot w =
      (Inl e, w\<lparr>ticks := Suc (ticks w), handlers := handlers w @ [log_file_of env dash_table w]\<rparr>)"
    using assms by (simp add: upload_dataframe_def prepare_cast_fails)
  show "isl (fst (upload_dataframe env dataframe dash_table dash_orgname dash_api_key dtypes
      chunksize path_to_output_for_dryrun include_snapshot w))"
    and "requests (snd (upload_dataframe env dataframe dash_table dash_orgname dash_api_key
      dtypes chunksize path_to_output_for_dryrun include_snapshot w)) = requests w"
    and "files (snd (upload_dataframe env dataframe dash_table dash_orgname dash_api_key
      dtypes chunksize path_to_output_for_dryrun include_snapshot w)) = files w"
    by (simp_all add: run)
next
  let ?cast = "\<lparr>columns = [''a'', ''b''],
      rows = [[IntCell 1, StrCell ''x''], [IntCell 2, StrCell ''y'']]\<rparr>"
  have ok: "can_open accepting_env p" for p
    by (simp add: accepting_env_def)
  have fields: "heap two_strings_world = [two_strings]" "files two_strings_world = []"
    "ticks two_strings_world = 0"
    by (simp_all add: two_strings_world_def initial_world_def)
  have ints: "py_int ''1'' = Inr 1" "py_int ''2'' = Inr 2"
    by (simp_all add: py_int_def long_from_string_def strip_def is_space_def digit_value_def)
  have cast: "astype [(''a'', DInt)] two_strings = Inr ?cast"
    by (simp add: astype_def two_strings_def enumerate_eq_zip cast_column_def column_values_def
        ints int64_def infer_storage_def numeral_2_eq_2)
  have chunks: "data_chunks 30000 ?cast = Inr [?cast]"
    by (simp add: data_chunks_def py_range_def range_from.simps row_slice_def py_slice_def
        slice_bound_def Let_def)
  have csv: "to_csv ?cast = ''\"a\",\"b\"\<newline>1,\"x\"\<newline>2,\"y\"\<newline>''"
    by (simp add: to_csv_def writerow_def quote_field_def str_int_def str_nat.simps
        digit_char_def)
  have "upload_dataframe accepting_env 0 ''t'' ''org'' ''key'' [(''a'', DInt)] 30000
      (Some ''out'') False two_strings_world =
      (Inr (),
       two_strings_world\<lparr>ticks := 2,
         handlers := handlers two_strings_world @ [log_file_of accepting_env ''t'' two_strings_world],
         heap := [two_strings, ?cast],
         files := [(chunk_path ''out'' ''t'' 0, stream_of accepting_env 1 ?cast)]\<rparr>)"
    by (simp add: upload_dataframe_def prepare_cast ok fields cast chunks data_loop_dry_Cons)
  then show "map (payload \<circ> snd)
      (files (snd (upload_dataframe accepting_env 0 ''t'' ''org'' ''key'' [(''a'', DInt)]
         30000 (Some ''out'') False two_strings_world))) =
      [''\"a\",\"b\"\<newline>1,\"x\"\<newline>2,\"y\"\<newline>'']"
    by (simp add: stream_of_def csv)
qed

text \<open>
  A coercion map that asks for integers in the column \<^verbatim>\<open>b\<close>, whose first value is
  \<^verbatim>\<open>x\<close>: the call raises \<^verbatim>\<open>ValueError\<close> and sends nothing.
\<close>

theorem casts_before_snapshot_and_chunks_witness:
  "[(''b'', DInt)] \<noteq> [] \<and>
   can_open accepting_env (log_file_of accepting_env ''t'' two_strings_world) \<and>
   astype [(''b'', DInt)] (heap two_strings_world ! 0) = Inl ValueError \<and>
   upload_dataframe accepting_env 0 ''t'' ''org'' ''key'' [(''b'', DInt)] 1 None True
     two_strings_world =
     (Inl ValueError,
      two_strings_world\<lparr>ticks := Suc (ticks two_strings_world),
        handlers := handlers two_strings_world @
          [log_file_of accepting_env ''t'' two_strings_world]\<rparr>) \<and>
   requests (snd (upload_dataframe accepting_env 0 ''t'' ''org'' ''key'' [(''b'', DInt)] 1 None
     True two_strings_world)) = []"
proof -
  have ok: "can_open accepting_env (log_file_of accepting_env ''t'' two_strings_world)"
    by (simp add: accepting_env_def)
  have fields: "heap two_strings_world = [two_strings]" "requests two_strings_world = []"
    by (simp_all add: two_strings_world_def initial_world_def)
  have bad: "py_int ''x'' = Inl ValueError"
    by (simp add: py_int_def long_from_string_def strip_def is_space_def digit_value_def)
  have cast: "astype [(''b'', DInt)] (heap two_strings_world ! 0) = Inl ValueError"
    by (simp add: fields astype_def two_strings_def enumerate_eq_zip cast_column_def
        column_values_def bad infer_storage_def numeral_2_eq_2)
  have dtypes: "[(''b'', DInt)] \<noteq> []"
    by simp
  from casts_before_snapshot_and_chunks [OF dtypes ok, of 0 "''org''" "''key''" 1 None True]
    cast
  have "upload_dataframe accepting_env 0 ''t'' ''org'' ''key'' [(''b'', DInt)] 1 None True
     two_strings_world =
     (Inl ValueError,
      two_strings_world\<lparr>ticks := Suc (ticks two_strings_world),
        handlers := handlers two_strings_world @
          [log_file_of accepting_env ''t'' two_strings_world]\<rparr>)"
    by blast
  then show ?thesis using ok cast by (simp add: fields)
qed

subsection \<open>Claim C9\<close>

text \<open>
  Claim C9: a call of \<^verbatim>\<open>read_and_upload_file_to_dash\<close> that returns, returns the list of
  the response body texts, one per chunk and in the order of the chunks; with a dry-run
  directory it returns the empty list. Here the \<open>j\<close>-th request carries the \<open>j\<close>-th
  chunk as the callback left it, and the \<open>j\<close>-th text is the body of the server's answer
  to that request.
\<close>

theorem responses_in_chunk_order:
  assumes "read_and_upload_file_to_dash env file dash_table dash_orgname dash_api_key chunksize
             modify_lambda path_to_output_for_dryrun w = (Inr texts, w')"
  shows "(path_to_output_for_dryrun \<noteq> None \<longrightarrow> texts = []) \<and>
         (path_to_output_for_dryrun = None \<longrightarrow>
            (\<exists>chunks sent.
               read_csv_chunks chunksize file = Inr chunks \<and>
               requests w' = requests w @ sent \<and>
               length sent = length chunks \<and> length texts = length chunks \<and>
               (\<forall>j < length chunks. \<exists>m r.
                  call_modify_lambda modify_lambda (chunks ! j) = Inr m \<and>
                  gzip_decompress (data (sent ! j)) = to_csv m \<and>
                  server env (requests w @ take j sent) (sent ! j) = Inr r \<and>
                  texts ! j = response_text r)))"
proof -
  from assms obtain chunks where chunks: "read_csv_chunks chunksize file = Inr chunks"
    and run: "upload_file_chunks env dash_table dash_orgname dash_api_key modify_lambda
                path_to_output_for_dryrun 1 [] chunks w = (Inr texts, w')"
    by (auto simp: read_and_upload_file_to_dash_def split: sum.splits)
  show ?thesis
  proof (cases path_to_output_for_dryrun)
    case None
    from file_loop_live_requests [OF run [unfolded None]] obtain sent new where *:
      "requests w' = requests w @ sent" "texts = [] @ new"
      "length sent = length chunks" "length new = length chunks"
      "\<forall>j < length chunks. \<exists>m r. call_modify_lambda modify_lambda (chunks ! j) = Inr m \<and>
         sent ! j = dash_request dash_orgname dash_api_key dash_table (stream_of env (ticks w + j) m) \<and>
         server env (requests w @ take j sent) (sent ! j) = Inr r \<and>
         \<not> (400 \<le> status_code r \<and> status_code r < 600) \<and>
         new ! j = response_text r"
      by blast
    have "\<forall>j < length chunks. \<exists>m r.
        call_modify_lambda modify_lambda (chunks ! j) = Inr m \<and>
        gzip_decompress (data (sent ! j)) = to_csv m \<and>
        server env (requests w @ take j sent) (sent ! j) = Inr r \<and>
        texts ! j = response_text r"
    proof (intro allI impI)
      fix j assume "j < length chunks"
      from *(5) [rule_format, OF this] obtain m r where
        "call_modify_lambda modify_lambda (chunks ! j) = Inr m"
        "sent ! j = dash_request dash_orgname dash_api_key dash_table (stream_of env (ticks w + j) m)"
        "server env (requests w @ take j sent) (sent ! j) = Inr r"
        "new ! j = response_text r"
        by blast
      then show "\<exists>m r.
        call_modify_lambda modify_lambda (chunks ! j) = Inr m \<and>
        gzip_decompress (data (sent ! j)) = to_csv m \<and>
        server env (requests w @ take j sent) (sent ! j) = Inr r \<and>
        texts ! j = response_text r"
        using *(2) by (auto simp: dash_request_def stream_of_def gzip_decompress_def)
    qed
    then show ?thesis using None chunks * by auto
  next
    case (Some dir)
    from file_loop_dry_files [OF run [unfolded Some]] show ?thesis using Some by simp
  qed
qed

text \<open>Three rows in chunks of two, sent to a server that answers with a count.\<close>

theorem responses_in_chunk_order_witness:
  "read_and_upload_file_to_dash accepting_env three_rows ''t'' ''org'' ''key'' 2 None None
     initial_world =
     (Inr [''ok 0'', ''ok 1''],
      snd (read_and_upload_file_to_dash accepting_env three_rows ''t'' ''org'' ''key'' 2 None None
             initial_world)) \<and>
   (\<exists>chunks sent.
      read_csv_chunks 2 three_rows = Inr chunks \<and>
      requests (snd (read_and_upload_file_to_dash accepting_env three_rows ''t'' ''org'' ''key''
                       2 None None initial_world)) = requests initial_world @ sent \<and>
      length sent = length chunks \<and> length [''ok 0'', ''ok 1''] = length chunks \<and>
      (\<forall>j < length chunks. \<exists>m r.
         call_modify_lambda None (chunks ! j) = Inr m \<and>
         gzip_decompress (data (sent ! j)) = to_csv m \<and>
         server accepting_env (requests initial_world @ take j sent) (sent ! j) = Inr r \<and>
         [''ok 0'', ''ok 1''] ! j = response_text r))"
proof -
  have run: "read_and_upload_file_to_dash accepting_env three_rows ''t'' ''org'' ''key'' 2 None None
     initial_world =
     (Inr [''ok 0'', ''ok 1''],
      snd (read_and_upload_file_to_dash accepting_env three_rows ''t'' ''org'' ''key'' 2 None None
             initial_world))"
    by (rule prod_eqI)
       (simp_all add: read_and_upload_file_to_dash_def read_csv_chunks_def three_rows_def
          read_rows.simps file_loop_live_Cons call_modify_lambda_def Let_def accepting_env_def
          initial_world_def str_nat.simps digit_char_def)
  from responses_in_chunk_order [OF run] run show ?thesis by simp
qed

subsection \<open>Claim C10\<close>

lemma upload_dataframe_heap:
  "heap (snd (upload_dataframe env dataframe t org key dtypes chunksize path snap w)) =
   heap (snd (prepare_dataframe env dataframe t dtypes snap w))"
proof -
  obtain r0 w4 where prep: "prepare_dataframe env dataframe t dtypes snap w = (r0, w4)"
    by (cases "prepare_dataframe env dataframe t dtypes snap w")
  show ?thesis
  proof (cases r0)
    case (Inl e)
    then show ?thesis using prep by (simp add: upload_dataframe_def)
  next
    case (Inr dataframe')
    show ?thesis
    proof (cases "data_chunks chunksize (heap w4 ! dataframe')")
      case (Inl e)
      then show ?thesis using prep Inr by (simp add: upload_dataframe_def)
    next
      case chunks: (Inr chunks)
      obtain res w' where run: "upload_data_chunks env t org key path 0 chunks w4 = (res, w')"
        by (cases "upload_data_chunks env t org key path 0 chunks w4")
      from data_loop_frame [OF run] show ?thesis
        using prep Inr chunks run by (simp add: upload_dataframe_def)
    qed
  qed
qed

lemma prepare_heap_unchanged:
  assumes "dataframe < length (heap w)" "dtypes \<noteq> [] \<or> \<not> snap"
  shows "heap (snd (prepare_dataframe env dataframe t dtypes snap w)) ! dataframe =
         heap w ! dataframe"
proof (cases "can_open env (log_file_of env t w)")
  case False
  then show ?thesis by (simp add: prepare_cannot_open)
next
  case True
  show ?thesis
  proof (cases "dtypes = []")
    case True
    with assms \<open>can_open env (log_file_of env t w)\<close> show ?thesis
      by (simp add: prepare_no_dtypes)
  next
    case False
    with assms(1) True show ?thesis
      by (cases "astype dtypes (heap w ! dataframe)")
         (simp_all add: prepare_cast_fails prepare_cast nth_append)
  qed
qed

text \<open>
  Claim C10: when no coercion map is given and \<^verbatim>\<open>include_snapshot\<close> is true,
  \<^verbatim>\<open>upload_dataframe\<close> changes the caller's frame in place: after the call, whatever its
  outcome once the log file is open, the object at the caller's address is the old
  table with the snapshot value assigned to the column \<^verbatim>\<open>snapshot_timestamp\<close>, which is
  a new last column if the table had none. With a non-empty coercion map the cast
  creates a new object, the snapshot value goes into that one, and the object at the
  caller's address is what it was.
\<close>

theorem caller_frame_after_the_call:
  assumes "dataframe < length (heap w)"
  shows "(dtypes = [] \<and> include_snapshot \<and> can_open env (log_file_of env dash_table w) \<longrightarrow>
            heap (snd (upload_dataframe env dataframe dash_table dash_orgname dash_api_key
                         dtypes chunksize path_to_output_for_dryrun include_snapshot w)) ! dataframe =
              setitem ''snapshot_timestamp'' (StrCell (strftime_snapshot (clock env (ticks w))))
                (heap w ! dataframe) \<and>
            (''snapshot_timestamp'' \<notin> set (columns (heap w ! dataframe)) \<longrightarrow>
               columns (heap (snd (upload_dataframe env dataframe dash_table dash_orgname
                   dash_api_key dtypes chunksize path_to_output_for_dryrun include_snapshot w))
                 ! dataframe) =
                 columns (heap w ! dataframe) @ [''snapshot_timestamp''] \<and>
               heap (snd (upload_dataframe env dataframe dash_table dash_orgname dash_api_key
                   dtypes chunksize path_to_output_for_dryrun include_snapshot w)) ! dataframe \<noteq>
                 heap w ! dataframe)) \<and>
         (dtypes \<noteq> [] \<longrightarrow>
            heap (snd (upload_dataframe env dataframe dash_table dash_orgname dash_api_key
                         dtypes chunksize path_to_output_for_dryrun include_snapshot w)) ! dataframe =
              heap w ! dataframe)"
proof (intro conjI impI)
  let ?ts = "StrCell (strftime_snapshot (clock env (ticks w)))"
  let ?after = "heap (snd (upload_dataframe env dataframe dash_table dash_orgname dash_api_key
      dtypes chunksize path_to_output_for_dryrun include_snapshot w)) ! dataframe"
  assume a: "dtypes = [] \<and> include_snapshot \<and> can_open env (log_file_of env dash_table w)"
  then show eq: "?after = setitem ''snapshot_timestamp'' ?ts (heap w ! dataframe)"
    using assms by (simp add: upload_dataframe_heap prepare_no_dtypes snapshot_of_def)
  assume new: "''snapshot_timestamp'' \<notin> set (columns (heap w ! dataframe))"
  from setitem_new [OF new, of ?ts] eq
  show cols: "columns ?after = columns (heap w ! dataframe) @ [''snapshot_timestamp'']"
    by simp
  then have "columns ?after \<noteq> columns (heap w ! dataframe)" by simp
  then show "?after \<noteq> heap w ! dataframe" by auto
next
  assume "dtypes \<noteq> []"
  then show "heap (snd (upload_dataframe env dataframe dash_table dash_orgname dash_api_key
      dtypes chunksize path_to_output_for_dryrun include_snapshot w)) ! dataframe =
      heap w ! dataframe"
    using assms by (simp add: upload_dataframe_heap prepare_heap_unchanged)
qed

text \<open>
  The same table uploaded without and with a coercion map: the caller's object gets
  the third column in the first call and keeps its two columns in the second.
\<close>

theorem caller_frame_after_the_call_witness:
  "0 < length (heap one_frame_world) \<and>
   can_open accepting_env (log_file_of accepting_env ''t'' one_frame_world) \<and>
   ''snapshot_timestamp'' \<notin> set (columns (heap one_frame_world ! 0)) \<and>
   columns (heap (snd (upload_dataframe accepting_env 0 ''t'' ''org'' ''key'' [] 2 None True
      one_frame_world)) ! 0) = [''a'', ''b'', ''snapshot_timestamp''] \<and>
   [(''a'', DStr)] \<noteq> [] \<and>
   columns (heap (snd (upload_dataframe accepting_env 0 ''t'' ''org'' ''key'' [(''a'', DStr)] 2
      None True one_frame_world)) ! 0) = [''a'', ''b'']"
proof -
  have live: "0 < length (heap one_frame_world)"
    and cols: "columns (heap one_frame_world ! 0) = [''a'', ''b'']"
    by (simp_all add: one_frame_world_def initial_world_def three_rows_def)
  have ok: "can_open accepting_env p" for p
    by (simp add: accepting_env_def)
  from caller_frame_after_the_call [OF live, of "[]" True accepting_env "''t''" "''org''" "''key''" 2 None]
    caller_frame_after_the_call [OF live, of "[(''a'', DStr)]" True accepting_env "''t''" "''org''"
      "''key''" 2 None]
  show ?thesis
    using live cols ok by (simp add: setitem_def)
qed

end
